theory Spec2Isabelle
  imports Main "HOL-Library.Sublist" "HOL-Library.AList"
begin

section \<open>The enum fixer: \<open>GraphqlService.trimDoubleQuotesOnEnumField\<close>\<close>

text \<open>
  Strings are \<^typ>\<open>string\<close>. The source builds the text of a regular expression and
  hands it to \<open>new RegExp(patternRegex, 'g')\<close>:
  \<^verbatim>\<open>
    const patternWordInQuotes = `\s?(".*?")`;
    let patternRegex = enumSearchWords.join(patternWordInQuotes + '|');
    patternRegex += patternWordInQuotes;
  \<close>
  In a template literal the escape \<open>\s\<close> is the letter \<open>s\<close>, so the pattern text is
  \<open>s?(".*?")\<close>, as the source's own comment shows it:
  \<open>/sort:s?(".*?")|direction:s?(".*?")/\<close>. The functions below are that expression,
  piece by piece. Each returns the matched text and the text that follows it, or
  \<open>None\<close> when the piece does not match at the head of its argument.

  The search words are pasted into the pattern unescaped. The model reads each of them
  as literal text, which is what the expression does for a word with no character of
  the expression syntax (\<open>literalWords\<close>); the four words the service itself passes are
  of that kind.
\<close>

definition doubleQuote :: char where
  "doubleQuote = CHR 0x22"

definition isLineTerminator :: "char \<Rightarrow> bool" where
  \<comment> \<open>the characters \<open>.\<close> does not match: LF and CR (U+2028 and U+2029 are not 8-bit characters)\<close>
  "isLineTerminator c = (c = CHR 0x0A \<or> c = CHR 0x0D)"

definition regexSyntaxChars :: "char list" where
  "regexSyntaxChars = CHR 0x5C # ''^$.*+?()[]{}|''"

definition literalWords :: "string list \<Rightarrow> bool" where
  "literalWords ks = list_all (\<lambda>k. list_all (\<lambda>c. c \<notin> set regexSyntaxChars) k) ks"

fun closingQuote :: "string \<Rightarrow> (string \<times> string) option" where
  \<comment> \<open>\<open>.*?"\<close>: lazily, characters other than line terminators up to the first double quote\<close>
  "closingQuote [] = None"
| "closingQuote (c # cs) =
     (if c = doubleQuote then Some ([c], cs)
      else if isLineTerminator c then None
      else (case closingQuote cs of None \<Rightarrow> None | Some (m, r) \<Rightarrow> Some (c # m, r)))"

fun quotedWord :: "string \<Rightarrow> (string \<times> string) option" where
  \<comment> \<open>\<open>(".*?")\<close>\<close>
  "quotedWord [] = None"
| "quotedWord (c # cs) =
     (if c = doubleQuote
      then (case closingQuote cs of None \<Rightarrow> None | Some (m, r) \<Rightarrow> Some (c # m, r))
      else None)"

fun patternWordInQuotes :: "string \<Rightarrow> (string \<times> string) option" where
  \<comment> \<open>\<open>s?(".*?")\<close>: the optional letter is tried first, then the match without it\<close>
  "patternWordInQuotes [] = None"
| "patternWordInQuotes (c # cs) =
     (if c = CHR ''s''
      then (case quotedWord cs of
              Some (m, r) \<Rightarrow> Some (c # m, r)
            | None \<Rightarrow> quotedWord (c # cs))
      else quotedWord (c # cs))"

definition matchWord :: "string \<Rightarrow> string \<Rightarrow> (string \<times> string) option" where
  \<comment> \<open>one alternative: a search word followed by \<open>s?(".*?")\<close>\<close>
  "matchWord k t =
     (if prefix k t
      then (case patternWordInQuotes (drop (length k) t) of
              None \<Rightarrow> None
            | Some (m, r) \<Rightarrow> Some (k @ m, r))
      else None)"

fun matchAlternatives :: "string list \<Rightarrow> string \<Rightarrow> (string \<times> string) option" where
  \<comment> \<open>the alternatives in the order of the pattern; the first that matches is taken\<close>
  "matchAlternatives [] t = None"
| "matchAlternatives (k # ks) t =
     (case matchWord k t of Some mr \<Rightarrow> Some mr | None \<Rightarrow> matchAlternatives ks t)"

definition patternAlternatives :: "string list \<Rightarrow> string list" where
  \<comment> \<open>\<open>join\<close> of no word is the empty text, and the pattern is then \<open>s?(".*?")\<close> alone\<close>
  "patternAlternatives enumSearchWords = (if enumSearchWords = [] then [[]] else enumSearchWords)"

definition replacer :: "string \<Rightarrow> string" where
  \<comment> \<open>the callback: \<open>group1.replace(/"/g, '')\<close>, where \<open>group1\<close> is the whole match\<close>
  "replacer group1 = filter (\<lambda>c. c \<noteq> doubleQuote) group1"

fun replaceFrom :: "string list \<Rightarrow> nat \<Rightarrow> string \<Rightarrow> string" where
  \<comment> \<open>\<open>inputStr.replace(reg, callback)\<close> with the flag \<open>g\<close>: the text is scanned from left to
      right; \<open>n\<close> counts the characters still covered by the last match, where no new
      match can start\<close>
  "replaceFrom ks n [] = []"
| "replaceFrom ks (Suc n) (c # cs) = replaceFrom ks n cs"
| "replaceFrom ks 0 (c # cs) =
     (case matchAlternatives ks (c # cs) of
        Some (m, r) \<Rightarrow> replacer m @ replaceFrom ks (length m - 1) cs
      | None \<Rightarrow> c # replaceFrom ks 0 cs)"

definition trimDoubleQuotesOnEnumField :: "string \<Rightarrow> string list \<Rightarrow> string" where
  "trimDoubleQuotesOnEnumField inputStr enumSearchWords =
     replaceFrom (patternAlternatives enumSearchWords) 0 inputStr"

section \<open>The data of the service\<close>

text \<open>
  The interfaces of \<open>./../models\<close> are not among the sources; the records below have
  the fields the service reads and writes.
\<close>

record GraphqlSortingOption =
  sort_field :: string  \<comment> \<open>the key \<open>sort\<close>\<close>
  direction :: string

record GraphqlFilteringOption =
  fieldName :: string
  fieldOperator :: string
  fieldValue :: string

record Column =
  col_field :: "string option"  \<comment> \<open>\<open>field\<close>, possibly undefined\<close>
  col_id :: string  \<comment> \<open>\<open>id\<close>\<close>

record ColumnSort =
  sortCol :: Column
  sortAsc :: bool

text \<open>The event payload carries \<open>sortCol\<close> and \<open>sortAsc\<close> itself, for the single-column sort.\<close>

record SortChangedArgs = ColumnSort +
  multiColumnSort :: bool
  sortCols :: "ColumnSort list option"

text \<open>
  A JavaScript number is an IEEE double. The model has the doubles with a whole value, the
  negative zero, the two infinities and \<open>NaN\<close>: page sizes and page numbers are whole
  numbers, and subtraction and multiplication lead from these to no other double. A whole
  value is an \<^typ>\<open>int\<close>; the result of an operation is the exact result rounded to
  the nearest double, the even one of two equally near, and to an infinity beyond the
  largest double.
\<close>

datatype jsnumber = Finite int | NegZero | PosInfinity | NegInfinity | NaN

fun bitLength :: "nat \<Rightarrow> nat" where
  "bitLength n = (if n = 0 then 0 else Suc (bitLength (n div 2)))"

definition toDouble :: "int \<Rightarrow> jsnumber" where
  \<comment> \<open>rounding to 53 significant bits: \<open>q\<close> is the significand, \<open>r\<close> what is cut off\<close>
  "toDouble z =
     (let a = nat \<bar>z\<bar> in
      if a \<le> 2 ^ 53 then Finite z
      else
        (let e = bitLength a - 53;
             q = a div 2 ^ e;
             r = a mod 2 ^ e;
             m = (if 2 ^ e < 2 * r \<or> (2 * r = 2 ^ e \<and> odd q) then q + 1 else q);
             v = m * 2 ^ e
         in if 2 ^ 1024 \<le> v then (if z < 0 then NegInfinity else PosInfinity)
            else Finite (if z < 0 then - int v else int v)))"

definition isNumber :: "jsnumber \<Rightarrow> bool" where
  \<comment> \<open>a whole value is a number of the program when it is a double\<close>
  "isNumber x = (case x of Finite i \<Rightarrow> toDouble i = Finite i | _ \<Rightarrow> True)"

fun isZero :: "jsnumber \<Rightarrow> bool" where
  "isZero (Finite i) = (i = 0)"
| "isZero NegZero = True"
| "isZero PosInfinity = False"
| "isZero NegInfinity = False"
| "isZero NaN = False"

fun isInfinite :: "jsnumber \<Rightarrow> bool" where
  "isInfinite (Finite i) = False"
| "isInfinite NegZero = False"
| "isInfinite PosInfinity = True"
| "isInfinite NegInfinity = True"
| "isInfinite NaN = False"

fun negative :: "jsnumber \<Rightarrow> bool" where
  \<comment> \<open>the sign bit\<close>
  "negative (Finite i) = (i < 0)"
| "negative NegZero = True"
| "negative PosInfinity = False"
| "negative NegInfinity = True"
| "negative NaN = False"

fun integerOf :: "jsnumber \<Rightarrow> int" where
  \<comment> \<open>the value of a finite number\<close>
  "integerOf (Finite i) = i"
| "integerOf NegZero = 0"
| "integerOf PosInfinity = 0"
| "integerOf NegInfinity = 0"
| "integerOf NaN = 0"

definition jsMinus :: "jsnumber \<Rightarrow> jsnumber \<Rightarrow> jsnumber" where
  \<comment> \<open>the operator \<open>-\<close>; a difference of zero is the positive zero, but for \<open>-0 - 0\<close>\<close>
  "jsMinus a b =
     (if a = NaN \<or> b = NaN then NaN
      else if isInfinite a \<and> isInfinite b
        then (if negative a = negative b then NaN else a)
      else if isInfinite a then a
      else if isInfinite b then (if negative b then PosInfinity else NegInfinity)
      else if integerOf a - integerOf b = 0
        then (if a = NegZero \<and> b = Finite 0 then NegZero else Finite 0)
      else toDouble (integerOf a - integerOf b))"

definition jsTimes :: "jsnumber \<Rightarrow> jsnumber \<Rightarrow> jsnumber" where
  \<comment> \<open>the operator \<open>*\<close>; the sign of a zero or of an infinity is that of the product\<close>
  "jsTimes a b =
     (if a = NaN \<or> b = NaN then NaN
      else if (isInfinite a \<and> isZero b) \<or> (isZero a \<and> isInfinite b) then NaN
      else if isInfinite a \<or> isInfinite b
        then (if negative a = negative b then PosInfinity else NegInfinity)
      else if isZero a \<or> isZero b
        then (if negative a = negative b then Finite 0 else NegZero)
      else toDouble (integerOf a * integerOf b))"

record PaginationChangedArgs =
  pageSize :: jsnumber
  newPage :: jsnumber

text \<open>
  A value of an argument object, and an object as the list of its own properties in the
  order of their creation (the order in which \<open>for ... in\<close> visits them). Objects live
  in a store and are held by reference, since \<open>buildQuery\<close> writes into the object that
  \<open>serviceOptions.paginationOptions\<close> refers to.
\<close>

datatype argval =
  Num jsnumber
| Str string
| Undef
| SortBy "GraphqlSortingOption list"
| FilterBy "GraphqlFilteringOption list"

type_synonym jsobject = "(string \<times> argval) list"

type_synonym ref = nat

definition setProperty :: "string \<Rightarrow> argval \<Rightarrow> jsobject \<Rightarrow> jsobject" where
  \<comment> \<open>\<open>obj.key = v\<close>: an existing property keeps its place, a new one comes last\<close>
  "setProperty key v obj = AList.update key v obj"

text \<open>
  \<open>QueryBuilder\<close> is the class of the package \<open>graphql-query-builder\<close>, which is not part
  of this repository. The model records what the service hands to a builder: the name
  given to the constructor, the object given to \<open>filter\<close> and the selection given to
  \<open>find\<close>. Its \<open>toString\<close> is a parameter of every function that calls it.
\<close>

datatype findItem =
  Name string  \<comment> \<open>a plain field name\<close>
| Obj string "findItem list"  \<comment> \<open>an object with one key and a selection: \<open>{'node': [...]}\<close>\<close>
| Sub QueryBuilder  \<comment> \<open>a builder used as a nested selection\<close>
and QueryBuilder =
  QueryBuilder (fnNameS: string) (headA: jsobject) (bodyS: "findItem list")

definition newQueryBuilder :: "string \<Rightarrow> QueryBuilder" where
  "newQueryBuilder fnName = QueryBuilder fnName [] []"

definition findQb :: "findItem list \<Rightarrow> QueryBuilder \<Rightarrow> QueryBuilder" where
  "findQb findA qb = QueryBuilder (fnNameS qb) (headA qb) findA"

definition filterQb :: "jsobject option \<Rightarrow> QueryBuilder \<Rightarrow> QueryBuilder" where
  \<comment> \<open>\<open>filter(undefined)\<close> has no property to visit\<close>
  "filterQb filtersO qb =
     (case filtersO of
        None \<Rightarrow> qb
      | Some obj \<Rightarrow> QueryBuilder (fnNameS qb) (headA qb @ obj) (bodyS qb))"

text \<open>
  A key of the options object is absent, present with the value \<open>undefined\<close>, or present
  with a value. Reading an absent key gives \<open>undefined\<close> too; the spread of
  \<open>updateOptions\<close> tells the two apart.
\<close>

datatype 'a optional = Absent | Undefined | Defined 'a

fun valueOf :: "'a optional \<Rightarrow> 'a option" where
  "valueOf (Defined v) = Some v"
| "valueOf Undefined = None"
| "valueOf Absent = None"

fun truthyString :: "string optional \<Rightarrow> bool" where
  \<comment> \<open>the empty string is falsy\<close>
  "truthyString (Defined s) = (s \<noteq> [])"
| "truthyString Undefined = False"
| "truthyString Absent = False"

fun truthyBool :: "bool optional \<Rightarrow> bool" where
  "truthyBool (Defined b) = b"
| "truthyBool Undefined = False"
| "truthyBool Absent = False"

fun truthy :: "'a optional \<Rightarrow> bool" where
  \<comment> \<open>arrays and objects are truthy, also when empty\<close>
  "truthy (Defined v) = True"
| "truthy Undefined = False"
| "truthy Absent = False"

record GraphqlServiceOption =
  datasetName :: "string optional"
  dataFilters :: "findItem list optional"
  isWithCursor :: "bool optional"
  paginationOptions :: "ref optional"
  sortingOptions :: "GraphqlSortingOption list optional"
  filteringOptions :: "GraphqlFilteringOption list optional"

definition emptyOptions :: GraphqlServiceOption where
  \<comment> \<open>the object \<open>{}\<close>\<close>
  "emptyOptions = \<lparr>datasetName = Absent, dataFilters = Absent, isWithCursor = Absent,
     paginationOptions = Absent, sortingOptions = Absent, filteringOptions = Absent\<rparr>"

record GraphqlService =
  serviceOptions :: GraphqlServiceOption
  store :: "ref \<Rightarrow> jsobject"
  nextRef :: ref  \<comment> \<open>where the next object literal is created\<close>

datatype error =
  ConfigurationError  \<comment> \<open>\<open>Error('GraphQL Service requires "datasetName" & "dataFilters" ...')\<close>\<close>
| TypeError  \<comment> \<open>writing a property of \<open>undefined\<close>\<close>

definition defaultOrderBy :: GraphqlSortingOption where
  "defaultOrderBy = \<lparr>sort_field = ''id'', direction = ''ASC''\<rparr>"

definition enumSearchWords :: "string list" where
  "enumSearchWords = [''sort:'', ''direction:'', ''fieldName:'', ''fieldOperator:'']"

section \<open>The operations of \<open>GraphqlService\<close>\<close>

definition initOptions :: "GraphqlServiceOption option \<Rightarrow> GraphqlService \<Rightarrow> GraphqlService" where
  "initOptions serviceOptionsArg this =
     this\<lparr>serviceOptions := (case serviceOptionsArg of None \<Rightarrow> emptyOptions | Some so \<Rightarrow> so)\<rparr>"

definition spreadKey :: "'a optional \<Rightarrow> 'a optional \<Rightarrow> 'a optional" where
  \<comment> \<open>one key of \<open>{ ...a, ...b }\<close>\<close>
  "spreadKey a b = (case b of Absent \<Rightarrow> a | Undefined \<Rightarrow> Undefined | Defined v \<Rightarrow> Defined v)"

definition spread :: "GraphqlServiceOption \<Rightarrow> GraphqlServiceOption \<Rightarrow> GraphqlServiceOption" where
  "spread a b =
     \<lparr>datasetName = spreadKey (datasetName a) (datasetName b),
      dataFilters = spreadKey (dataFilters a) (dataFilters b),
      isWithCursor = spreadKey (isWithCursor a) (isWithCursor b),
      paginationOptions = spreadKey (paginationOptions a) (paginationOptions b),
      sortingOptions = spreadKey (sortingOptions a) (sortingOptions b),
      filteringOptions = spreadKey (filteringOptions a) (filteringOptions b)\<rparr>"

definition updateOptions :: "GraphqlServiceOption option \<Rightarrow> GraphqlService \<Rightarrow> GraphqlService" where
  \<comment> \<open>\<open>this.serviceOptions = { ...this.serviceOptions, ...serviceOptions }\<close>\<close>
  "updateOptions serviceOptionsArg this =
     (case serviceOptionsArg of
        None \<Rightarrow> this
      | Some so \<Rightarrow> this\<lparr>serviceOptions := spread (serviceOptions this) so\<rparr>)"

definition assignProperty ::
  "ref option \<Rightarrow> string \<Rightarrow> argval \<Rightarrow> GraphqlService \<Rightarrow> error + GraphqlService" where
  \<comment> \<open>\<open>target.key = v\<close>, where \<open>target\<close> may be \<open>undefined\<close>\<close>
  "assignProperty target key v this =
     (case target of
        None \<Rightarrow> Inl TypeError
      | Some r \<Rightarrow> Inr (this\<lparr>store := (store this)(r := setProperty key v (store this r))\<rparr>))"

definition addDatasetFilters :: "GraphqlService \<Rightarrow> error + GraphqlService" where
  \<comment> \<open>lines 34 to 42: \<open>datasetFilters\<close> is the reference held in \<open>paginationOptions\<close>\<close>
  "addDatasetFilters this =
     (let datasetFilters = valueOf (paginationOptions (serviceOptions this)) in
      case (if truthy (sortingOptions (serviceOptions this))
            then (case sortingOptions (serviceOptions this) of
                    Defined s \<Rightarrow> assignProperty datasetFilters ''orderBy'' (SortBy s) this
                  | _ \<Rightarrow> Inr this)
            else Inr this) of
        Inl e \<Rightarrow> Inl e
      | Inr this1 \<Rightarrow>
          (if truthy (filteringOptions (serviceOptions this))
           then (case filteringOptions (serviceOptions this) of
                   Defined f \<Rightarrow> assignProperty datasetFilters ''filterBy'' (FilterBy f) this1
                 | _ \<Rightarrow> Inr this1)
           else Inr this1))"

definition buildQueryQb :: "GraphqlService \<Rightarrow> (error + QueryBuilder) \<times> GraphqlService" where
  \<comment> \<open>lines 13 to 46 of \<open>buildQuery\<close>: the builder \<open>queryQb\<close>, as it stands before
      \<open>toString\<close> is called\<close>
  "buildQueryQb this =
     (let so = serviceOptions this in
      if \<not> truthyString (datasetName so) \<or> \<not> truthy (dataFilters so)
      then (Inl ConfigurationError, this)
      else
        (case (datasetName so, dataFilters so) of
           (Defined dsName, Defined selection) \<Rightarrow>
             (let queryQb = newQueryBuilder ''query'';
                  datasetQb = newQueryBuilder dsName;
                  pageInfoQb = newQueryBuilder ''pageInfo'';
                  dataQb = (if truthyBool (isWithCursor so)
                            then newQueryBuilder ''edges'' else newQueryBuilder ''nodes'');
                  pageInfoQb = (if truthyBool (isWithCursor so)
                                then findQb [Name ''hasNextPage'', Name ''endCursor''] pageInfoQb
                                else findQb [Name ''hasNextPage''] pageInfoQb);
                  dataQb = (if truthyBool (isWithCursor so)
                            then findQb [Name ''cursor'', Obj ''node'' selection] dataQb
                            else findQb selection dataQb);
                  datasetQb = findQb [Name ''totalCount'', Sub pageInfoQb, Sub dataQb] datasetQb
              in case addDatasetFilters this of
                   Inl e \<Rightarrow> (Inl e, this)
                 | Inr this1 \<Rightarrow>
                     (let datasetFilters =
                            map_option (store this1) (valueOf (paginationOptions so));
                          datasetQb = filterQb datasetFilters datasetQb;
                          queryQb = findQb [Sub datasetQb] queryQb
                      in (Inr queryQb, this1)))
         | _ \<Rightarrow> (Inl ConfigurationError, this)))"

definition buildQuery ::
  "(QueryBuilder \<Rightarrow> string) \<Rightarrow> GraphqlService \<Rightarrow> (error + string) \<times> GraphqlService" where
  \<comment> \<open>lines 48 and 49 follow; the parameter \<open>serviceOptions\<close> of the source is not read\<close>
  "buildQuery toStr this =
     (case buildQueryQb this of
        (Inl e, this1) \<Rightarrow> (Inl e, this1)
      | (Inr queryQb, this1) \<Rightarrow>
          (Inr (trimDoubleQuotesOnEnumField (toStr queryQb) enumSearchWords), this1))"

definition newObject :: "jsobject \<Rightarrow> GraphqlService \<Rightarrow> ref \<times> GraphqlService" where
  \<comment> \<open>an object literal: a new object in the store\<close>
  "newObject obj this =
     (nextRef this, this\<lparr>store := (store this)(nextRef this := obj), nextRef := Suc (nextRef this)\<rparr>)"

definition resetPaginationOptions :: "GraphqlService \<Rightarrow> GraphqlService" where
  "resetPaginationOptions this =
     (let (paginationOptionsRef, this1) =
            (if truthyBool (isWithCursor (serviceOptions this))
             then newObject [(''after'', Str []), (''before'', Undef), (''last'', Undef)] this
             else newObject [(''offset'', Num (Finite 0))] this)
      in updateOptions
           (Some (emptyOptions\<lparr>paginationOptions := Defined paginationOptionsRef\<rparr>)) this1)"

definition setPaginationOptions :: "PaginationChangedArgs \<Rightarrow> GraphqlService \<Rightarrow> GraphqlService" where
  \<comment> \<open>lines 131 to 143 of \<open>onPaginationChanged\<close>, up to the call of \<open>updateOptions\<close>\<close>
  "setPaginationOptions args this =
     (let (paginationOptionsRef, this1) =
            (if truthyBool (isWithCursor (serviceOptions this))
             then newObject [(''first'', Num (pageSize args))] this
             else newObject [(''first'', Num (pageSize args)),
                             (''offset'', Num (jsTimes (jsMinus (newPage args) (Finite 1)) (pageSize args)))] this)
      in updateOptions
           (Some (emptyOptions\<lparr>paginationOptions := Defined paginationOptionsRef\<rparr>)) this1)"

definition onPaginationChanged ::
  "(QueryBuilder \<Rightarrow> string) \<Rightarrow> PaginationChangedArgs \<Rightarrow> GraphqlService
     \<Rightarrow> (error + string) \<times> GraphqlService" where
  \<comment> \<open>the parameter \<open>event\<close> of the source is not read\<close>
  "onPaginationChanged toStr args this = buildQuery toStr (setPaginationOptions args this)"

fun pushSortColumns ::
  "ColumnSort list \<Rightarrow> GraphqlSortingOption list \<Rightarrow> GraphqlSortingOption list" where
  \<comment> \<open>the \<open>for ... of\<close> loop, pushing onto \<open>sortByArray\<close>\<close>
  "pushSortColumns [] sortByArray = sortByArray"
| "pushSortColumns (column # rest) sortByArray =
     (let fieldName = (case col_field (sortCol column) of
                         None \<Rightarrow> col_id (sortCol column)
                       | Some f \<Rightarrow> if f \<noteq> [] then f else col_id (sortCol column));
          direction = (if sortAsc column then ''ASC'' else ''DESC'')
      in pushSortColumns rest
           (sortByArray @ [\<lparr>sort_field = fieldName, direction = direction\<rparr>]))"

definition setSortingOptions :: "SortChangedArgs \<Rightarrow> GraphqlService \<Rightarrow> GraphqlService" where
  \<comment> \<open>lines 155 to 175 of \<open>onSortChanged\<close>, up to the call of \<open>updateOptions\<close>\<close>
  "setSortingOptions args this =
     (let sortColumns = (if multiColumnSort args then sortCols args
                         else Some [\<lparr>sortCol = sortCol args, sortAsc = sortAsc args\<rparr>]);
          sortByArray = (case sortColumns of
                           None \<Rightarrow> []
                         | Some cols \<Rightarrow>
                             if length cols = 0 then [defaultOrderBy]
                             else pushSortColumns cols [])
      in updateOptions (Some (emptyOptions\<lparr>sortingOptions := Defined sortByArray\<rparr>)) this)"

definition onSortChanged ::
  "(QueryBuilder \<Rightarrow> string) \<Rightarrow> SortChangedArgs \<Rightarrow> GraphqlService
     \<Rightarrow> (error + string) \<times> GraphqlService" where
  \<comment> \<open>the parameter \<open>event\<close> of the source is not read\<close>
  "onSortChanged toStr args this = buildQuery toStr (setSortingOptions args this)"

section \<open>Notions used to state the properties\<close>

text \<open>
  A plain text has no double quote and no line terminator: what \<open>.*?\<close> runs through
  before the closing quote. A quoted word is a double quote followed, after a plain
  text, by a double quote: what \<open>(".*?")\<close> matches.
\<close>

definition plainText :: "string \<Rightarrow> bool" where
  "plainText v = list_all (\<lambda>c. c \<noteq> doubleQuote \<and> \<not> isLineTerminator c) v"

fun quotedWordIn :: "string \<Rightarrow> bool" where
  \<comment> \<open>somewhere in the text a quoted word starts\<close>
  "quotedWordIn [] = False"
| "quotedWordIn (c # cs) = (quotedWord (c # cs) \<noteq> None \<or> quotedWordIn cs)"


text \<open>
  A text that is the first part of a longer one leaves a match open when, at a place
  where the scan looks for a match, an alternative of the pattern could still match with
  more text behind: the text ends inside the search word, or right after it, or in a
  quoted word that is not closed yet. Where no match is left open, what follows the text
  is scanned as an input of its own.
\<close>

fun openQuote :: "string \<Rightarrow> bool" where
  \<comment> \<open>a double quote with plain text up to the end\<close>
  "openQuote [] = False"
| "openQuote (c # v) = (c = doubleQuote \<and> plainText v)"

fun pendingTail :: "string \<Rightarrow> bool" where
  \<comment> \<open>what stands behind a search word can still become \<open>s?(".*?")\<close>\<close>
  "pendingTail [] = True"
| "pendingTail (c # w) = (openQuote (c # w) \<or> (c = CHR ''s'' \<and> (w = [] \<or> openQuote w)))"

definition pendingWord :: "string \<Rightarrow> string \<Rightarrow> bool" where
  "pendingWord k u = (strict_prefix u k \<or> (prefix k u \<and> pendingTail (drop (length k) u)))"

fun pendingFrom :: "string list \<Rightarrow> nat \<Rightarrow> string \<Rightarrow> bool" where
  \<comment> \<open>the scan of \<open>replaceFrom\<close>, looking for an alternative left pending\<close>
  "pendingFrom ks n [] = False"
| "pendingFrom ks (Suc n) (c # cs) = pendingFrom ks n cs"
| "pendingFrom ks 0 (c # cs) =
     (list_ex (\<lambda>k. pendingWord k (c # cs)) ks
      \<or> (case matchAlternatives ks (c # cs) of
            Some (m, r) \<Rightarrow> pendingFrom ks (length m - 1) cs
          | None \<Rightarrow> pendingFrom ks 0 cs))"

definition leavesMatchOpen :: "string list \<Rightarrow> string \<Rightarrow> bool" where
  "leavesMatchOpen ks pre = pendingFrom (patternAlternatives ks) 0 pre"

section \<open>A serialisation and a service for the worked examples\<close>

text \<open>
  Modelled from the spec: \<open>toString\<close> of the generic builder, which is not part of the
  sources. The spec fixes how the call arguments are rendered: every scalar string value
  in double quotes (4.2, step 5), the raw fragment \<open>sort:"lastName", direction:"ASC"\<close>
  (property 7), \<open>first:20, offset:40\<close> (property 6), and the entries of \<open>orderBy\<close> in
  brackets, joined by a comma (property 4). The selection is rendered as the comments of
  the source show a query: a name, the arguments in parentheses, the selected fields in
  braces. The general theorems below hold for every serialisation; this one is used in
  the closed examples only.
\<close>

fun joinWith :: "string \<Rightarrow> string list \<Rightarrow> string" where
  "joinWith sep [] = []"
| "joinWith sep [x] = x"
| "joinWith sep (x # y # ys) = x @ sep @ joinWith sep (y # ys)"

fun showNat :: "nat \<Rightarrow> string" where
  "showNat n =
     (if n < 10 then [''0123456789'' ! n]
      else showNat (n div 10) @ [''0123456789'' ! (n mod 10)])"

definition showInt :: "int \<Rightarrow> string" where
  "showInt i = (if i < 0 then CHR ''-'' # showNat (nat (- i)) else showNat (nat i))"

fun showNumber :: "jsnumber \<Rightarrow> string" where
  "showNumber (Finite i) = showInt i"
| "showNumber NegZero = ''0''"
| "showNumber PosInfinity = ''Infinity''"
| "showNumber NegInfinity = ''-Infinity''"
| "showNumber NaN = ''NaN''"

definition quoted :: "string \<Rightarrow> string" where
  "quoted s = doubleQuote # s @ [doubleQuote]"

fun specValue :: "argval \<Rightarrow> string" where
  \<comment> \<open>Modelled from the spec: a value of a call argument, strings in double quotes\<close>
  "specValue (Num n) = showNumber n"
| "specValue (Str s) = quoted s"
| "specValue Undef = ''undefined''"
| "specValue (SortBy xs) =
     ''['' @ joinWith '','' (map (\<lambda>x. ''{sort:'' @ quoted (sort_field x)
                                   @ '', direction:'' @ quoted (direction x) @ ''}'') xs) @ '']''"
| "specValue (FilterBy xs) =
     ''['' @ joinWith '','' (map (\<lambda>x. ''{fieldName:'' @ quoted (fieldName x)
                                   @ '', fieldOperator:'' @ quoted (fieldOperator x)
                                   @ '', fieldValue:'' @ quoted (fieldValue x) @ ''}'') xs) @ '']''"

definition specArguments :: "jsobject \<Rightarrow> string" where
  "specArguments obj = joinWith '', '' (map (\<lambda>(k, v). k @ '':'' @ specValue v) obj)"

fun specSelection :: "findItem \<Rightarrow> string" and specToString :: "QueryBuilder \<Rightarrow> string" where
  \<comment> \<open>Modelled from the spec: \<open>QueryBuilder.toString\<close> of \<open>graphql-query-builder\<close>\<close>
  "specSelection (Name s) = s"
| "specSelection (Obj k items) = k @ '' { '' @ joinWith '', '' (map specSelection items) @ '' }''"
| "specSelection (Sub q) = specToString q"
| "specToString (QueryBuilder n h b) =
     n @ (if h = [] then [] else ''('' @ specArguments h @ '')'')
       @ '' { '' @ joinWith '', '' (map specSelection b) @ '' }''"

definition emptyService :: GraphqlService where
  \<comment> \<open>a new \<open>GraphqlService\<close>: \<open>serviceOptions = {}\<close>\<close>
  "emptyService = \<lparr>serviceOptions = emptyOptions, store = (\<lambda>r. []), nextRef = 0\<rparr>"

definition usersService :: GraphqlService where
  \<comment> \<open>after \<open>initOptions({ datasetName: 'users', dataFilters: ['id', 'name'] })\<close>\<close>
  "usersService =
     initOptions (Some (emptyOptions\<lparr>datasetName := Defined ''users'',
                                     dataFilters := Defined [Name ''id'', Name ''name'']\<rparr>))
       emptyService"

definition usersCursorService :: GraphqlService where
  \<comment> \<open>the same with \<open>isWithCursor: true\<close>\<close>
  "usersCursorService =
     initOptions (Some (emptyOptions\<lparr>datasetName := Defined ''users'',
                                     dataFilters := Defined [Name ''id'', Name ''name''],
                                     isWithCursor := Defined True\<rparr>))
       emptyService"

definition page3 :: PaginationChangedArgs where
  "page3 = \<lparr>pageSize = Finite 20, newPage = Finite 3\<rparr>"

definition noSortColumn :: SortChangedArgs where
  \<comment> \<open>a multi-column sort with no column; \<open>sortCol\<close> and \<open>sortAsc\<close> are not read then\<close>
  "noSortColumn = \<lparr>sortCol = \<lparr>col_field = None, col_id = []\<rparr>, sortAsc = True,
                    multiColumnSort = True, sortCols = Some []\<rparr>"

definition twoColumns :: "ColumnSort list" where
  \<comment> \<open>the field \<open>lastName\<close> ascending, then the field \<open>firstName\<close> descending\<close>
  "twoColumns = [\<lparr>sortCol = \<lparr>col_field = Some ''lastName'', col_id = ''col1''\<rparr>, sortAsc = True\<rparr>,
                 \<lparr>sortCol = \<lparr>col_field = Some ''firstName'', col_id = ''col2''\<rparr>, sortAsc = False\<rparr>]"

definition twoSortColumns :: SortChangedArgs where
  "twoSortColumns = \<lparr>sortCol = \<lparr>col_field = None, col_id = []\<rparr>, sortAsc = True,
                      multiColumnSort = True, sortCols = Some twoColumns\<rparr>"

definition pagedUsersService :: GraphqlService where
  \<comment> \<open>\<open>usersService\<close> after \<open>onPaginationChanged\<close> with page 3 of size 20\<close>
  "pagedUsersService = snd (onPaginationChanged specToString page3 usersService)"

definition plainFilter :: "GraphqlFilteringOption list" where
  "plainFilter = [\<lparr>fieldName = ''name'', fieldOperator = ''EQ'', fieldValue = ''abc''\<rparr>]"

definition filteredUsersService :: GraphqlService where
  \<comment> \<open>\<open>pagedUsersService\<close> after \<open>updateOptions({ filteringOptions: ... })\<close> and
      \<open>buildQuery()\<close>: \<open>filterBy\<close> is stored in the pagination object\<close>
  "filteredUsersService =
     snd (buildQuery specToString
            (updateOptions (Some (emptyOptions\<lparr>filteringOptions := Defined plainFilter\<rparr>))
               pagedUsersService))"

definition searchWordFilter :: "GraphqlFilteringOption list" where
  \<comment> \<open>a filter value that ends in a search word\<close>
  "searchWordFilter = [\<lparr>fieldName = ''name'', fieldOperator = ''EQ'', fieldValue = ''sort:''\<rparr>]"

definition searchWordFilteredService :: GraphqlService where
  "searchWordFilteredService =
     snd (buildQuery specToString
            (updateOptions (Some (emptyOptions\<lparr>filteringOptions := Defined searchWordFilter\<rparr>))
               pagedUsersService))"

section \<open>Properties of the enum fixer\<close>

lemma closingQuote_split:
  "closingQuote cs = Some (m, r) \<Longrightarrow> cs = m @ r \<and> m \<noteq> []"
  by (induction cs arbitrary: m) (auto split: if_splits option.splits)

lemma quotedWord_split:
  "quotedWord t = Some (m, r) \<Longrightarrow> t = m @ r \<and> m \<noteq> []"
  by (cases t) (auto split: if_splits option.splits dest: closingQuote_split)

lemma patternWordInQuotes_split:
  "patternWordInQuotes t = Some (m, r) \<Longrightarrow> t = m @ r \<and> m \<noteq> []"
  by (cases t)
    (auto simp del: quotedWord.simps split: if_splits option.splits dest: quotedWord_split)

lemma matchWord_split:
  "matchWord k t = Some (m, r) \<Longrightarrow> t = m @ r \<and> m \<noteq> []"
  unfolding matchWord_def
  by (auto split: if_splits option.splits dest!: patternWordInQuotes_split simp: prefix_def)

lemma matchAlternatives_split:
  "matchAlternatives ks t = Some (m, r) \<Longrightarrow> t = m @ r \<and> m \<noteq> []"
  by (induction ks) (auto split: option.splits dest: matchWord_split)

lemma matchAlternatives_None:
  "(\<And>k. k \<in> set ks \<Longrightarrow> matchWord k t = None) \<Longrightarrow> matchAlternatives ks t = None"
  by (induction ks) auto

text \<open>The scan resumes right after a match: the counter only skips the matched text.\<close>

lemma replaceFrom_drop: "replaceFrom ks n t = replaceFrom ks 0 (drop n t)"
proof (induction t arbitrary: n)
  case Nil
  show ?case by simp
next
  case (Cons c cs)
  show ?case
  proof (cases n)
    case 0
    then show ?thesis by simp
  next
    case (Suc k)
    then show ?thesis using Cons.IH [of k] by simp
  qed
qed

lemma replaceFrom_match:
  assumes "matchAlternatives ks t = Some (m, r)"
  shows "replaceFrom ks 0 t = replacer m @ replaceFrom ks 0 r"
proof -
  from matchAlternatives_split [OF assms] have t: "t = m @ r" and m: "m \<noteq> []" by simp_all
  from m obtain c m' where m': "m = c # m'" by (cases m) auto
  have "replaceFrom ks 0 t = replacer m @ replaceFrom ks (length m - 1) (m' @ r)"
    using assms t m' by simp
  also have "replaceFrom ks (length m - 1) (m' @ r) = replaceFrom ks 0 r"
    using replaceFrom_drop [of ks "length m - 1" "m' @ r"] m' by simp
  finally show ?thesis .
qed

lemma replacer_append: "replacer (a @ b) = replacer a @ replacer b"
  by (simp add: replacer_def)

lemma replacer_idem: "replacer (replacer a) = replacer a"
  by (simp add: replacer_def)

text \<open>
  The fixer deletes double quotes and does nothing else: with every double quote taken
  out, its result and its input are the same text.
\<close>

lemma replacer_replaceFrom: "replacer (replaceFrom ks 0 t) = replacer t"
proof (induction "length t" arbitrary: t rule: less_induct)
  case less
  show ?case
  proof (cases t)
    case Nil
    then show ?thesis by simp
  next
    case (Cons c cs)
    show ?thesis
    proof (cases "matchAlternatives ks t")
      case None
      have "replacer (replaceFrom ks 0 cs) = replacer cs"
        using less [of cs] Cons by simp
      then show ?thesis using None Cons by (simp add: replacer_def)
    next
      case (Some mr)
      obtain m r where mr: "mr = (m, r)" by (cases mr)
      from matchAlternatives_split [of ks t m r] Some mr
      have t: "t = m @ r" and m: "m \<noteq> []" by simp_all
      have "replacer (replaceFrom ks 0 r) = replacer r"
        using less [of r] t m by simp
      then show ?thesis
        using replaceFrom_match [of ks t m r] Some mr t
        by (simp add: replacer_append replacer_idem)
    qed
  qed
qed

lemma replacer_trimDoubleQuotesOnEnumField:
  "replacer (trimDoubleQuotesOnEnumField s ks) = replacer s"
  by (simp add: trimDoubleQuotesOnEnumField_def replacer_replaceFrom)

lemma closingQuote_value:
  "doubleQuote \<notin> set v \<Longrightarrow> \<not> list_ex isLineTerminator v \<Longrightarrow>
   closingQuote (v @ doubleQuote # rest) = Some (v @ [doubleQuote], rest)"
  by (induction v) auto

lemma matchWord_value:
  assumes "doubleQuote \<notin> set v" and "\<not> list_ex isLineTerminator v"
  shows "matchWord k (k @ doubleQuote # v @ doubleQuote # rest)
         = Some (k @ doubleQuote # v @ [doubleQuote], rest)"
proof -
  have "doubleQuote \<noteq> CHR ''s''" by (simp add: doubleQuote_def)
  then show ?thesis
    using closingQuote_value [OF assms, of rest] by (simp add: matchWord_def)
qed

text \<open>The parts of the pattern on a text with more text behind it.\<close>

lemma plainText_iff: "plainText v \<longleftrightarrow> doubleQuote \<notin> set v \<and> \<not> list_ex isLineTerminator v"
  by (induction v) (auto simp add: plainText_def)

lemma closingQuote_append:
  "\<not> plainText v \<Longrightarrow>
   closingQuote (v @ b) = map_option (\<lambda>(m, r). (m, r @ b)) (closingQuote v)"
  by (induction v) (auto simp add: plainText_def split: option.splits)

lemma quotedWord_append:
  "\<not> openQuote w \<Longrightarrow> w \<noteq> [] \<Longrightarrow>
   quotedWord (w @ b) = map_option (\<lambda>(m, r). (m, r @ b)) (quotedWord w)"
  by (cases w) (auto simp add: closingQuote_append split: option.splits)

lemma quotedWord_s: "quotedWord (CHR ''s'' # x) = None"
  by (simp add: doubleQuote_def)

lemma patternWordInQuotes_append:
  assumes "\<not> pendingTail w"
  shows "patternWordInQuotes (w @ b) = map_option (\<lambda>(m, r). (m, r @ b)) (patternWordInQuotes w)"
proof (cases w)
  case Nil
  with assms show ?thesis by simp
next
  case (Cons c w')
  show ?thesis
  proof (cases "c = CHR ''s''")
    case True
    with assms Cons have w': "w' \<noteq> []" "\<not> openQuote w'" by auto
    from quotedWord_append [OF w'(2,1), of b] Cons True show ?thesis
      by (auto simp add: quotedWord_s simp del: quotedWord.simps split: option.splits)
  next
    case False
    from assms Cons have "\<not> openQuote (c # w')" by auto
    from quotedWord_append [OF this, of b] Cons False show ?thesis
      by (simp del: quotedWord.simps)
  qed
qed

lemma matchWord_append:
  assumes "u \<noteq> []" and "\<not> pendingWord k u"
  shows "matchWord k (u @ b) = map_option (\<lambda>(m, r). (m, r @ b)) (matchWord k u)"
proof (cases "prefix k u")
  case True
  with assms(2) have t: "\<not> pendingTail (drop (length k) u)" by (simp add: pendingWord_def)
  from True have l: "length k \<le> length u" by (rule prefix_length_le)
  from True have "prefix k (u @ b)" by (simp add: prefix_def) (metis append.assoc)
  with True l patternWordInQuotes_append [OF t, of b] show ?thesis
    by (auto simp add: matchWord_def split: option.splits)
next
  case False
  have "\<not> prefix k (u @ b)"
  proof
    assume "prefix k (u @ b)"
    with False obtain us where "k = u @ us" by (auto simp add: prefix_append)
    with False have "strict_prefix u k" by (auto simp add: strict_prefix_def)
    with assms(2) show False by (simp add: pendingWord_def)
  qed
  with False show ?thesis by (simp add: matchWord_def)
qed

lemma matchAlternatives_append:
  "u \<noteq> [] \<Longrightarrow> \<not> list_ex (\<lambda>k. pendingWord k u) ks \<Longrightarrow>
   matchAlternatives ks (u @ b) = map_option (\<lambda>(m, r). (m, r @ b)) (matchAlternatives ks u)"
  by (induction ks) (auto simp add: matchWord_append split: option.splits)

text \<open>
  Where the first part leaves no match open, the scan of the whole text is the scan of
  the first part followed by the scan of the rest.
\<close>

lemma replaceFrom_append:
  "\<not> pendingFrom ks n pre \<Longrightarrow> n \<le> length pre \<Longrightarrow>
   replaceFrom ks n (pre @ b) = replaceFrom ks n pre @ replaceFrom ks 0 b"
proof (induction ks n pre rule: pendingFrom.induct)
  case (1 ks n)
  then show ?case by simp
next
  case (2 ks n c cs)
  then show ?case by simp
next
  case (3 ks c cs)
  from "3.prems" have np: "\<not> list_ex (\<lambda>k. pendingWord k (c # cs)) ks" by simp
  note app = matchAlternatives_append [OF _ np, of b, simplified]
  show ?case
  proof (cases "matchAlternatives ks (c # cs)")
    case None
    with "3.prems" have "\<not> pendingFrom ks 0 cs" by simp
    from "3.IH"(1) [OF None this] None app show ?thesis by simp
  next
    case (Some mr)
    obtain m r where mr: "mr = (m, r)" by (cases mr)
    from matchAlternatives_split [of ks "c # cs" m r] Some mr
    have t: "c # cs = m @ r" and m: "m \<noteq> []" by simp_all
    then have len: "length m - 1 \<le> length cs"
      by (cases m) auto
    from "3.prems" Some mr have "\<not> pendingFrom ks (length m - 1) cs" by simp
    from "3.IH"(2) [OF Some mr [symmetric] this len] Some mr app show ?thesis by simp
  qed
qed


lemma closingQuote_shape:
  "closingQuote cs = Some (m, r) \<Longrightarrow> \<exists>x. m = x @ [doubleQuote] \<and> doubleQuote \<notin> set x"
proof (induction cs arbitrary: m)
  case Nil
  then show ?case by simp
next
  case (Cons c cs)
  show ?case
  proof (cases "c = doubleQuote")
    case True
    with Cons.prems show ?thesis by auto
  next
    case False
    with Cons.prems obtain m' where m': "closingQuote cs = Some (m', r)" and m: "m = c # m'"
      by (auto split: if_splits option.splits)
    from Cons.IH [OF m'] obtain x where "m' = x @ [doubleQuote]" "doubleQuote \<notin> set x" by blast
    with m False have "m = (c # x) @ [doubleQuote] \<and> doubleQuote \<notin> set (c # x)" by simp
    then show ?thesis by blast
  qed
qed

lemma quotedWord_shape:
  "quotedWord w = Some (m, r) \<Longrightarrow> \<exists>x. m = doubleQuote # x @ [doubleQuote] \<and> doubleQuote \<notin> set x"
  by (cases w) (auto split: if_splits option.splits dest: closingQuote_shape)

lemma patternWordInQuotes_shape:
  assumes "patternWordInQuotes w = Some (m, r)"
  shows "\<exists>a x. m = a @ doubleQuote # x @ [doubleQuote] \<and> (a = [] \<or> a = ''s'')
           \<and> doubleQuote \<notin> set x"
proof (cases w)
  case Nil
  with assms show ?thesis by simp
next
  case (Cons c w')
  show ?thesis
  proof (cases "c = CHR ''s''")
    case True
    with assms Cons obtain m' where "quotedWord w' = Some (m', r)" and m: "m = c # m'"
      by (auto simp add: quotedWord_s simp del: quotedWord.simps split: option.splits)
    from quotedWord_shape [OF this(1)] obtain x where
      "m' = doubleQuote # x @ [doubleQuote]" "doubleQuote \<notin> set x" by blast
    with m True have "m = ''s'' @ doubleQuote # x @ [doubleQuote] \<and> doubleQuote \<notin> set x" by simp
    then show ?thesis by blast
  next
    case False
    with assms Cons have "quotedWord w = Some (m, r)" by (simp del: quotedWord.simps)
    from quotedWord_shape [OF this] obtain x where
      "m = [] @ doubleQuote # x @ [doubleQuote]" "doubleQuote \<notin> set x" by auto
    then show ?thesis by blast
  qed
qed

lemma matchWord_shape:
  assumes "matchWord k t = Some (m, r)" and "doubleQuote \<notin> set k"
  shows "\<exists>a x. m = a @ doubleQuote # x @ [doubleQuote] \<and> doubleQuote \<notin> set a
           \<and> doubleQuote \<notin> set x"
proof -
  from assms(1) obtain m' where p: "patternWordInQuotes (drop (length k) t) = Some (m', r)"
    and m: "m = k @ m'"
    by (auto simp add: matchWord_def split: if_splits option.splits)
  from patternWordInQuotes_shape [OF p] obtain a x where
    "m' = a @ doubleQuote # x @ [doubleQuote]" "a = [] \<or> a = ''s''" "doubleQuote \<notin> set x"
    by blast
  with m assms(2) have "m = (k @ a) @ doubleQuote # x @ [doubleQuote]
      \<and> doubleQuote \<notin> set (k @ a) \<and> doubleQuote \<notin> set x"
    by (auto simp add: doubleQuote_def)
  then show ?thesis by blast
qed

lemma replacer_plain: "doubleQuote \<notin> set a \<Longrightarrow> replacer a = a"
  by (induction a) (auto simp add: replacer_def)

lemma replacer_match:
  "doubleQuote \<notin> set a \<Longrightarrow> doubleQuote \<notin> set x \<Longrightarrow>
   replacer (a @ doubleQuote # x @ [doubleQuote]) = a @ x"
  using replacer_plain [of a] replacer_plain [of x] by (simp add: replacer_def)

lemma matchAlternatives_word:
  "matchAlternatives ks t = Some mr \<Longrightarrow> \<exists>k \<in> set ks. matchWord k t = Some mr"
  by (induction ks) (auto split: option.splits)

lemma matchAlternatives_some:
  "k \<in> set ks \<Longrightarrow> matchWord k t = Some mr \<Longrightarrow> \<exists>mr'. matchAlternatives ks t = Some mr'"
  by (induction ks) (auto split: option.splits)

lemma first_quote_unique:
  "a @ q # x = b @ q # y \<Longrightarrow> q \<notin> set a \<Longrightarrow> q \<notin> set b \<Longrightarrow> a = b \<and> x = y"
proof (induction a arbitrary: b)
  case Nil
  then show ?case by (cases b) auto
next
  case (Cons c a)
  then show ?case by (cases b) auto
qed

lemma two_quotes_unique:
  assumes "a @ q # x @ q # r = b @ q # y @ q # r'"
    and "q \<notin> set a" "q \<notin> set x" "q \<notin> set b" "q \<notin> set y"
  shows "a = b \<and> x = y \<and> r = r'"
proof -
  from first_quote_unique [OF assms(1,2,4)] have ab: "a = b" and "x @ q # r = y @ q # r'"
    by simp_all
  from first_quote_unique [OF this(2) assms(3,5)] ab show ?thesis by simp
qed

text \<open>
  A quoted value right after a search word, with no double quote before the search word:
  the two quotes go, whichever alternative takes them, and the scan goes on behind.
\<close>

lemma replaceFrom_enum_value:
  assumes q: "\<forall>k \<in> set ks. doubleQuote \<notin> set k"
    and k: "k \<in> set ks" and v: "plainText v"
  shows "doubleQuote \<notin> set p \<Longrightarrow>
    replaceFrom ks 0 (p @ k @ doubleQuote # v @ doubleQuote # rest)
      = p @ k @ v @ replaceFrom ks 0 rest"
proof (induction p)
  case Nil
  let ?t = "k @ doubleQuote # v @ doubleQuote # rest"
  from v have v': "doubleQuote \<notin> set v" "\<not> list_ex isLineTerminator v"
    by (simp_all add: plainText_iff)
  from matchAlternatives_some [OF k matchWord_value [OF v', of k rest]]
  obtain m r where mr: "matchAlternatives ks ?t = Some (m, r)" by auto
  from matchAlternatives_word [OF mr] obtain k' where k': "k' \<in> set ks"
    and w: "matchWord k' ?t = Some (m, r)" by blast
  from k' q have "doubleQuote \<notin> set k'" by blast
  from matchWord_shape [OF w this] obtain a x where
    m: "m = a @ doubleQuote # x @ [doubleQuote]" and a: "doubleQuote \<notin> set a"
    and x: "doubleQuote \<notin> set x" by blast
  from matchAlternatives_split [OF mr] m
  have "a @ doubleQuote # x @ doubleQuote # r = k @ doubleQuote # v @ doubleQuote # rest"
    by simp
  from two_quotes_unique [OF this a x] k q v'(1)
  have "a = k" "x = v" "r = rest" by auto
  with m replacer_match [OF a x] have "replacer m = k @ v" by simp
  with replaceFrom_match [OF mr] \<open>r = rest\<close> show ?case by simp
next
  case (Cons c p)
  let ?t = "(c # p) @ k @ doubleQuote # v @ doubleQuote # rest"
  from v have v': "doubleQuote \<notin> set v" by (simp add: plainText_iff)
  show ?case
  proof (cases "matchAlternatives ks ?t")
    case None
    with Cons show ?thesis by simp
  next
    case (Some mr)
    obtain m r where mr: "matchAlternatives ks ?t = Some (m, r)" using Some by (cases mr) auto
    from matchAlternatives_word [OF mr] obtain k' where k': "k' \<in> set ks"
      and w: "matchWord k' ?t = Some (m, r)" by blast
    from k' q have "doubleQuote \<notin> set k'" by blast
    from matchWord_shape [OF w this] obtain a x where
      m: "m = a @ doubleQuote # x @ [doubleQuote]" and a: "doubleQuote \<notin> set a"
      and x: "doubleQuote \<notin> set x" by blast
    from matchAlternatives_split [OF mr] m
    have "a @ doubleQuote # x @ doubleQuote # r
            = ((c # p) @ k) @ doubleQuote # v @ doubleQuote # rest"
      by simp
    from two_quotes_unique [OF this a x] Cons.prems k q v'
    have "a = (c # p) @ k" "x = v" "r = rest" by auto
    with m replacer_match [OF a x] have "replacer m = (c # p) @ k @ v" by simp
    with replaceFrom_match [OF mr] \<open>r = rest\<close> show ?thesis by simp
  qed
qed

lemma quotedWordIn_appendI: "quotedWordIn w \<Longrightarrow> quotedWordIn (a @ w)"
  by (induction a) (auto simp del: quotedWord.simps)

lemma quotedWordIn_append_plain:
  "doubleQuote \<notin> set w \<Longrightarrow> quotedWordIn (w @ t) = quotedWordIn t"
  by (induction w) auto

lemma matchWord_quotedWordIn:
  assumes "matchWord k u = Some mr"
  shows "quotedWordIn u"
proof -
  obtain m r where mr: "mr = (m, r)" by (cases mr)
  from assms mr obtain w m' where u: "u = k @ w" and p: "patternWordInQuotes w = Some (m', r)"
    by (auto simp add: matchWord_def prefix_def split: if_splits option.splits)
  have "quotedWordIn w"
  proof (cases w)
    case Nil
    with p show ?thesis by simp
  next
    case (Cons c w')
    with p have "quotedWord w \<noteq> None \<or> quotedWord w' \<noteq> None"
      by (auto simp del: quotedWord.simps split: if_splits option.splits)
    with Cons show ?thesis by (cases w') (auto simp del: quotedWord.simps(2))
  qed
  with u show ?thesis by (simp add: quotedWordIn_appendI)
qed

text \<open>Where no quoted word is, the fixer finds nothing to do.\<close>

lemma replaceFrom_no_quoted_word:
  "\<not> quotedWordIn t \<Longrightarrow> replaceFrom ks 0 t = t"
proof (induction t)
  case Nil
  show ?case by simp
next
  case (Cons c cs)
  have "matchAlternatives ks (c # cs) = None"
  proof (cases "matchAlternatives ks (c # cs)")
    case None
    then show ?thesis .
  next
    case (Some mr)
    from matchAlternatives_word [OF Some] obtain k where "matchWord k (c # cs) = Some mr"
      by blast
    from matchWord_quotedWordIn [OF this] Cons.prems show ?thesis by simp
  qed
  moreover from Cons.prems have "\<not> quotedWordIn cs" by simp
  ultimately show ?case using Cons.IH by simp
qed



lemma trimDoubleQuotesOnEnumField_append:
  "\<not> leavesMatchOpen ks pre \<Longrightarrow>
   trimDoubleQuotesOnEnumField (pre @ b) ks
     = trimDoubleQuotesOnEnumField pre ks @ trimDoubleQuotesOnEnumField b ks"
  by (simp add: trimDoubleQuotesOnEnumField_def leavesMatchOpen_def replaceFrom_append)

lemma plain_no_quoted_word: "doubleQuote \<notin> set p \<Longrightarrow> \<not> quotedWordIn p"
  using quotedWordIn_append_plain [of p "[]"] by simp


lemmas fixer_eval = trimDoubleQuotesOnEnumField_def patternAlternatives_def matchWord_def
  replacer_def doubleQuote_def isLineTerminator_def

text \<open>
  C2, as the claim states it, fails: for the key list \<open>["sort:","direction:"]\<close> and the
  text \<open>sort:"lastName", direction:"ASC"\<close> the fixer does not return
  \<open>sort: lastName, direction: ASC\<close>. The callback only deletes double quotes, so no space
  appears between a colon and the bare value.
\<close>

theorem trimDoubleQuotesOnEnumField_literal_example_counterexample:
  \<open>trimDoubleQuotesOnEnumField ''sort:"lastName", direction:"ASC"'' [''sort:'', ''direction:'']
     \<noteq> ''sort: lastName, direction: ASC''\<close>
  by (simp add: fixer_eval)

text \<open>
  C2, amended: for the key list \<open>["sort:","direction:"]\<close> and the text
  \<open>sort:"lastName", direction:"ASC"\<close> the fixer returns exactly
  \<open>sort:lastName, direction:ASC\<close>: the quotes are stripped and nothing is inserted.
\<close>

theorem trimDoubleQuotesOnEnumField_literal_example:
  \<open>trimDoubleQuotesOnEnumField ''sort:"lastName", direction:"ASC"'' [''sort:'', ''direction:'']
     = ''sort:lastName, direction:ASC''\<close>
  by (simp add: fixer_eval)





text \<open>
  C8, as the claim states it, fails: in \<open>sort:"a"b"\<close> the value after the key has an
  internal double quote, and a double quote of that value is left in the result. The
  lazy \<open>.*?\<close> ends the match at the first double quote after the opening one.
\<close>

theorem trimDoubleQuotesOnEnumField_internal_quote_counterexample:
  \<open>trimDoubleQuotesOnEnumField ''sort:"a"b"'' [''sort:''] = ''sort:ab"'' \<and>
   doubleQuote \<in> set (trimDoubleQuotesOnEnumField ''sort:"a"b"'' [''sort:''])\<close>
  by (simp add: fixer_eval)

text \<open>
  C8, amended: for literal search words without double quotes, let a search word of the
  list be followed by a double quote, a value with no double quote and no line
  terminator, and a double quote, behind a text \<open>p\<close> that holds no double quote or leaves
  no match open. The fixer removes these two quotes and no other, and goes on with the
  rest as with a new input. A rest with no quoted word in it is returned as it is, its
  double quotes included: a later double quote of a malformed value goes only where a
  later match takes it.
\<close>

theorem trimDoubleQuotesOnEnumField_first_closing_quote:
  assumes "literalWords ks"
    and "\<forall>k \<in> set ks. doubleQuote \<notin> set k"
    and "k \<in> set ks"
    and "doubleQuote \<notin> set p \<or> \<not> leavesMatchOpen ks p"
    and "plainText v"
  shows "trimDoubleQuotesOnEnumField (p @ k @ doubleQuote # v @ doubleQuote # rest) ks
           = trimDoubleQuotesOnEnumField p ks @ k @ v @ trimDoubleQuotesOnEnumField rest ks
         \<and> (\<not> quotedWordIn rest \<longrightarrow> trimDoubleQuotesOnEnumField rest ks = rest)"
proof -
  from assms(3) have ks: "patternAlternatives ks = ks" by (auto simp add: patternAlternatives_def)
  have here: "replaceFrom ks 0 (q @ k @ doubleQuote # v @ doubleQuote # rest)
                = q @ k @ v @ replaceFrom ks 0 rest" if "doubleQuote \<notin> set q" for q
    using replaceFrom_enum_value [OF assms(2,3,5) that] .
  have "trimDoubleQuotesOnEnumField (p @ k @ doubleQuote # v @ doubleQuote # rest) ks
           = trimDoubleQuotesOnEnumField p ks @ k @ v @ trimDoubleQuotesOnEnumField rest ks"
  proof (cases "doubleQuote \<notin> set p")
    case True
    from replaceFrom_no_quoted_word [OF plain_no_quoted_word [OF True], of ks] here [OF True] ks
    show ?thesis by (simp add: trimDoubleQuotesOnEnumField_def)
  next
    case False
    with assms(4) have "\<not> leavesMatchOpen ks p" by simp
    from trimDoubleQuotesOnEnumField_append [OF this] here [of "[]"] ks
    show ?thesis by (simp add: trimDoubleQuotesOnEnumField_def)
  qed
  moreover have "\<not> quotedWordIn rest \<longrightarrow> trimDoubleQuotesOnEnumField rest ks = rest"
    by (simp add: trimDoubleQuotesOnEnumField_def replaceFrom_no_quoted_word)
  ultimately show ?thesis by simp
qed

text \<open>
  C8, amended, with the search words of the service on \<open>{direction:"a"b"}\<close>: the last
  double quote of the value stays.
\<close>

theorem trimDoubleQuotesOnEnumField_first_closing_quote_witness:
  \<open>literalWords enumSearchWords \<and> list_all (\<lambda>k. doubleQuote \<notin> set k) enumSearchWords \<and>
   ''direction:'' \<in> set enumSearchWords \<and> doubleQuote \<notin> set ''{'' \<and> plainText ''a'' \<and>
   \<not> quotedWordIn ''b"}'' \<and>
   trimDoubleQuotesOnEnumField ''{direction:"a"b"}'' enumSearchWords = ''{direction:ab"}''\<close>
proof -
  have w: \<open>literalWords enumSearchWords\<close>
    by (simp add: literalWords_def regexSyntaxChars_def enumSearchWords_def)
  have q: \<open>\<forall>k \<in> set enumSearchWords. doubleQuote \<notin> set k\<close>
    by (simp add: enumSearchWords_def doubleQuote_def)
  have k: \<open>''direction:'' \<in> set enumSearchWords\<close> by (simp add: enumSearchWords_def)
  have p: \<open>doubleQuote \<notin> set ''{''\<close> by (simp add: doubleQuote_def)
  have v: \<open>plainText ''a''\<close> by (simp add: plainText_def doubleQuote_def isLineTerminator_def)
  have r: \<open>\<not> quotedWordIn ''b"}''\<close> by (simp add: doubleQuote_def isLineTerminator_def)
  have u: \<open>trimDoubleQuotesOnEnumField ''{'' enumSearchWords = ''{''\<close>
    by (simp add: fixer_eval enumSearchWords_def)
  from trimDoubleQuotesOnEnumField_first_closing_quote [OF w q k disjI1 [OF p] v, of \<open>''b"}''\<close>] r u
  have \<open>trimDoubleQuotesOnEnumField ''{direction:"a"b"}'' enumSearchWords = ''{direction:ab"}''\<close>
    by (simp add: doubleQuote_def)
  moreover from q have \<open>list_all (\<lambda>k. doubleQuote \<notin> set k) enumSearchWords\<close>
    by (simp add: list_all_iff)
  ultimately show ?thesis using w k p v r by (intro conjI)
qed


section \<open>Properties of the service\<close>

subsection \<open>What \<open>buildQuery\<close> does, case by case\<close>

lemma addDatasetFilters_Defined:
  assumes "paginationOptions (serviceOptions this) = Defined r"
  shows "addDatasetFilters this =
     Inr (this\<lparr>store := (store this)(r :=
        (let obj1 = (case sortingOptions (serviceOptions this) of
                       Defined s \<Rightarrow> setProperty ''orderBy'' (SortBy s) (store this r)
                     | _ \<Rightarrow> store this r)
         in case filteringOptions (serviceOptions this) of
              Defined f \<Rightarrow> setProperty ''filterBy'' (FilterBy f) obj1
            | _ \<Rightarrow> obj1))\<rparr>)"
  using assms
  by (cases "sortingOptions (serviceOptions this)"; cases "filteringOptions (serviceOptions this)")
     (simp_all add: addDatasetFilters_def assignProperty_def)

lemma addDatasetFilters_undefined:
  assumes "valueOf (paginationOptions (serviceOptions this)) = None"
  shows "addDatasetFilters this =
     (if truthy (sortingOptions (serviceOptions this)) \<or> truthy (filteringOptions (serviceOptions this))
      then Inl TypeError else Inr this)"
  using assms
  by (cases "sortingOptions (serviceOptions this)"; cases "filteringOptions (serviceOptions this)")
     (simp_all add: addDatasetFilters_def assignProperty_def)

lemma addDatasetFilters_frame:
  assumes "addDatasetFilters this = Inr this1"
  shows "serviceOptions this1 = serviceOptions this \<and> nextRef this1 = nextRef this"
proof (cases "paginationOptions (serviceOptions this)")
  case (Defined r)
  from addDatasetFilters_Defined [OF this] assms show ?thesis by auto
next
  case Absent
  then have "valueOf (paginationOptions (serviceOptions this)) = None" by simp
  from addDatasetFilters_undefined [OF this] assms show ?thesis by (auto split: if_splits)
next
  case Undefined
  then have "valueOf (paginationOptions (serviceOptions this)) = None" by simp
  from addDatasetFilters_undefined [OF this] assms show ?thesis by (auto split: if_splits)
qed

lemma map_of_setProperty: "map_of (setProperty k v obj) = (map_of obj)(k \<mapsto> v)"
  by (simp add: setProperty_def update_conv')

lemma addDatasetFilters_sorting:
  assumes "addDatasetFilters this = Inr this'"
    and "sortingOptions (serviceOptions this) = Defined s"
  obtains r where "paginationOptions (serviceOptions this) = Defined r"
    and "map_of (store this' r) ''orderBy'' = Some (SortBy s)"
proof (cases "paginationOptions (serviceOptions this)")
  case (Defined r)
  from addDatasetFilters_Defined [OF this] assms
  have "map_of (store this' r) ''orderBy'' = Some (SortBy s)"
    by (auto simp add: map_of_setProperty Let_def split: optional.splits)
  with Defined that show ?thesis by blast
next
  case Absent
  then have "valueOf (paginationOptions (serviceOptions this)) = None" by simp
  from addDatasetFilters_undefined [OF this] assms show ?thesis by simp
next
  case Undefined
  then have "valueOf (paginationOptions (serviceOptions this)) = None" by simp
  from addDatasetFilters_undefined [OF this] assms show ?thesis by simp
qed

lemma addDatasetFilters_filtering:
  assumes "addDatasetFilters this = Inr this'"
    and "filteringOptions (serviceOptions this) = Defined f"
  obtains r where "paginationOptions (serviceOptions this) = Defined r"
    and "map_of (store this' r) ''filterBy'' = Some (FilterBy f)"
proof (cases "paginationOptions (serviceOptions this)")
  case (Defined r)
  from addDatasetFilters_Defined [OF this] assms
  have "map_of (store this' r) ''filterBy'' = Some (FilterBy f)"
    by (auto simp add: map_of_setProperty Let_def split: optional.splits)
  with Defined that show ?thesis by blast
next
  case Absent
  then have "valueOf (paginationOptions (serviceOptions this)) = None" by simp
  from addDatasetFilters_undefined [OF this] assms show ?thesis by simp
next
  case Undefined
  then have "valueOf (paginationOptions (serviceOptions this)) = None" by simp
  from addDatasetFilters_undefined [OF this] assms show ?thesis by simp
qed

lemma buildQueryQb_ConfigurationError:
  "\<not> truthyString (datasetName (serviceOptions this)) \<or> \<not> truthy (dataFilters (serviceOptions this))
   \<Longrightarrow> buildQueryQb this = (Inl ConfigurationError, this)"
  by (auto simp add: buildQueryQb_def)

lemma buildQueryQb_configured:
  assumes "datasetName (serviceOptions this) = Defined dsName" and "dsName \<noteq> []"
    and "dataFilters (serviceOptions this) = Defined selection"
  shows "buildQueryQb this =
     (case addDatasetFilters this of
        Inl e \<Rightarrow> (Inl e, this)
      | Inr this1 \<Rightarrow>
          (Inr (QueryBuilder ''query'' []
                  [Sub (QueryBuilder dsName
                     (case valueOf (paginationOptions (serviceOptions this)) of
                        None \<Rightarrow> [] | Some r \<Rightarrow> store this1 r)
                     [Name ''totalCount'',
                      Sub (QueryBuilder ''pageInfo'' []
                        (if truthyBool (isWithCursor (serviceOptions this))
                         then [Name ''hasNextPage'', Name ''endCursor'']
                         else [Name ''hasNextPage''])),
                      Sub (if truthyBool (isWithCursor (serviceOptions this))
                           then QueryBuilder ''edges'' [] [Name ''cursor'', Obj ''node'' selection]
                           else QueryBuilder ''nodes'' [] selection)])]),
           this1))"
  using assms
  by (cases "paginationOptions (serviceOptions this)")
     (simp_all add: buildQueryQb_def Let_def newQueryBuilder_def findQb_def filterQb_def
        split: sum.splits)

lemma configured_cases:
  obtains (missing) "\<not> truthyString (datasetName (serviceOptions this)) \<or> \<not> truthy (dataFilters (serviceOptions this))"
  | (configured) dsName selection where "datasetName (serviceOptions this) = Defined dsName" "dsName \<noteq> []"
      "dataFilters (serviceOptions this) = Defined selection"
  by (cases "datasetName (serviceOptions this)"; cases "dataFilters (serviceOptions this)") auto

lemma buildQueryQb_Inr:
  assumes "buildQueryQb this = (Inr queryQb, this')"
  obtains dsName selection where
    "datasetName (serviceOptions this) = Defined dsName" "dsName \<noteq> []"
    "dataFilters (serviceOptions this) = Defined selection"
    "addDatasetFilters this = Inr this'"
    "queryQb = QueryBuilder ''query'' []
                  [Sub (QueryBuilder dsName
                     (case valueOf (paginationOptions (serviceOptions this)) of
                        None \<Rightarrow> [] | Some r \<Rightarrow> store this' r)
                     [Name ''totalCount'',
                      Sub (QueryBuilder ''pageInfo'' []
                        (if truthyBool (isWithCursor (serviceOptions this))
                         then [Name ''hasNextPage'', Name ''endCursor'']
                         else [Name ''hasNextPage''])),
                      Sub (if truthyBool (isWithCursor (serviceOptions this))
                           then QueryBuilder ''edges'' [] [Name ''cursor'', Obj ''node'' selection]
                           else QueryBuilder ''nodes'' [] selection)])]"
proof (cases rule: configured_cases [of this])
  case missing
  from buildQueryQb_ConfigurationError [OF this] assms show ?thesis by simp
next
  case (configured dsName selection)
  from buildQueryQb_configured [OF configured] assms that [OF configured] show ?thesis
    by (auto split: sum.splits)
qed

lemma buildQuery_Inr:
  "buildQuery toStr this = (Inr queryText, this') \<longleftrightarrow>
   (\<exists>queryQb. buildQueryQb this = (Inr queryQb, this')
      \<and> queryText = trimDoubleQuotesOnEnumField (toStr queryQb) enumSearchWords)"
  by (auto simp add: buildQuery_def split: prod.splits sum.splits)

lemma buildQuery_Inl:
  "buildQuery toStr this = (Inl e, this') \<longleftrightarrow> buildQueryQb this = (Inl e, this')"
  by (auto simp add: buildQuery_def split: prod.splits sum.splits)

lemma buildQuery_serviceOptions:
  "serviceOptions (snd (buildQuery toStr this)) = serviceOptions this"
proof (cases "buildQueryQb this")
  case (Pair res this')
  show ?thesis
  proof (cases res)
    case (Inl e)
    with Pair have "this' = this"
      by (cases rule: configured_cases [of this])
         (auto simp add: buildQueryQb_ConfigurationError buildQueryQb_configured split: sum.splits)
    with Pair Inl show ?thesis by (simp add: buildQuery_def)
  next
    case (Inr q)
    with Pair have "addDatasetFilters this = Inr this'"
      by (auto elim: buildQueryQb_Inr)
    from addDatasetFilters_frame [OF this] Pair Inr show ?thesis by (simp add: buildQuery_def)
  qed
qed

text \<open>
  \<open>buildQuery\<close> returns a text on every state with both required properties set, once
  \<open>paginationOptions\<close> is set or neither sorting nor filtering options are.
\<close>

lemma buildQuery_returns:
  assumes "truthyString (datasetName (serviceOptions this))"
    and "truthy (dataFilters (serviceOptions this))"
    and "truthy (paginationOptions (serviceOptions this))
         \<or> \<not> truthy (sortingOptions (serviceOptions this))
           \<and> \<not> truthy (filteringOptions (serviceOptions this))"
  shows "\<exists>queryText this'. buildQuery toStr this = (Inr queryText, this')"
proof (cases rule: configured_cases [of this])
  case missing
  with assms(1,2) show ?thesis by simp
next
  case (configured dsName selection)
  have "\<exists>this'. addDatasetFilters this = Inr this'"
  proof (cases "paginationOptions (serviceOptions this)")
    case (Defined r)
    from addDatasetFilters_Defined [OF this] show ?thesis by blast
  next
    case Absent
    then have "valueOf (paginationOptions (serviceOptions this)) = None" by simp
    from addDatasetFilters_undefined [OF this] assms(3) Absent show ?thesis by simp
  next
    case Undefined
    then have "valueOf (paginationOptions (serviceOptions this)) = None" by simp
    from addDatasetFilters_undefined [OF this] assms(3) Undefined show ?thesis by simp
  qed
  with buildQueryQb_configured [OF configured] show ?thesis
    by (auto simp add: buildQuery_def)
qed

text \<open>A key that \<open>buildQuery\<close> does not write this time is handed on as it is stored.\<close>

lemma buildQueryQb_keeps_key:
  assumes "datasetName (serviceOptions this) = Defined dsName" and "dsName \<noteq> []"
    and "dataFilters (serviceOptions this) = Defined selection"
    and "paginationOptions (serviceOptions this) = Defined r"
    and "map_of (store this r) k = Some v"
    and "k = ''orderBy'' \<and> sortingOptions (serviceOptions this) = Undefined
         \<or> k = ''filterBy'' \<and> filteringOptions (serviceOptions this) = Undefined"
  shows "\<exists>queryQb this' args body.
           buildQueryQb this = (Inr queryQb, this') \<and>
           queryQb = QueryBuilder ''query'' [] [Sub (QueryBuilder dsName args body)] \<and>
           map_of args k = Some v"
proof -
  from addDatasetFilters_Defined [OF assms(4)] obtain obj where
    a: "addDatasetFilters this = Inr (this\<lparr>store := (store this)(r := obj)\<rparr>)"
    and obj: "obj = (let obj1 = (case sortingOptions (serviceOptions this) of
                       Defined s \<Rightarrow> setProperty ''orderBy'' (SortBy s) (store this r)
                     | _ \<Rightarrow> store this r)
         in case filteringOptions (serviceOptions this) of
              Defined f \<Rightarrow> setProperty ''filterBy'' (FilterBy f) obj1
            | _ \<Rightarrow> obj1)"
    by blast
  from obj assms(5,6) have "map_of obj k = Some v"
    by (auto simp add: map_of_setProperty Let_def split: optional.splits)
  with buildQueryQb_configured [OF assms(1-3)] a assms(4) show ?thesis by simp
qed

subsection \<open>What the event handlers store\<close>

lemma setSortingOptions_frame:
  "datasetName (serviceOptions (setSortingOptions args this)) = datasetName (serviceOptions this)"
  "dataFilters (serviceOptions (setSortingOptions args this)) = dataFilters (serviceOptions this)"
  "isWithCursor (serviceOptions (setSortingOptions args this)) = isWithCursor (serviceOptions this)"
  "paginationOptions (serviceOptions (setSortingOptions args this)) = paginationOptions (serviceOptions this)"
  "filteringOptions (serviceOptions (setSortingOptions args this)) = filteringOptions (serviceOptions this)"
  "store (setSortingOptions args this) = store this"
  by (simp_all add: setSortingOptions_def updateOptions_def spread_def spreadKey_def emptyOptions_def Let_def)

lemma pushSortColumns_map:
  "pushSortColumns cols acc = acc @ map (\<lambda>column.
      \<lparr>sort_field = (case col_field (sortCol column) of
                       None \<Rightarrow> col_id (sortCol column)
                     | Some f \<Rightarrow> if f \<noteq> [] then f else col_id (sortCol column)),
       direction = (if sortAsc column then ''ASC'' else ''DESC'')\<rparr>) cols"
  by (induction cols arbitrary: acc) (simp_all add: Let_def)

lemma setSortingOptions_multi:
  assumes "multiColumnSort args" and "sortCols args = Some cols"
  shows "sortingOptions (serviceOptions (setSortingOptions args this))
    = Defined (if cols = [] then [defaultOrderBy] else pushSortColumns cols [])"
  using assms
  by (simp add: setSortingOptions_def updateOptions_def spread_def spreadKey_def emptyOptions_def Let_def)

text \<open>What a successful \<open>onSortChanged\<close> returns, whatever the sort columns are.\<close>

lemma onSortChanged_Inr:
  assumes "onSortChanged toStr args this = (Inr queryText, this')"
    and "sortingOptions (serviceOptions (setSortingOptions args this)) = Defined s"
  shows "\<exists>queryQb dsName hd body.
       buildQueryQb (setSortingOptions args this) = (Inr queryQb, this') \<and>
       queryQb = QueryBuilder ''query'' [] [Sub (QueryBuilder dsName hd body)] \<and>
       map_of hd ''orderBy'' = Some (SortBy s) \<and>
       queryText = trimDoubleQuotesOnEnumField (toStr queryQb) enumSearchWords \<and>
       replacer queryText = replacer (toStr queryQb)"
proof -
  let ?S = "setSortingOptions args this"
  from assms(1) obtain queryQb where q: "buildQueryQb ?S = (Inr queryQb, this')"
    and t: "queryText = trimDoubleQuotesOnEnumField (toStr queryQb) enumSearchWords"
    unfolding onSortChanged_def buildQuery_Inr by blast
  from q obtain dsName selection where
    a: "addDatasetFilters ?S = Inr this'"
    and doc: "queryQb = QueryBuilder ''query'' []
                  [Sub (QueryBuilder dsName
                     (case valueOf (paginationOptions (serviceOptions ?S)) of
                        None \<Rightarrow> [] | Some r \<Rightarrow> store this' r)
                     [Name ''totalCount'',
                      Sub (QueryBuilder ''pageInfo'' []
                        (if truthyBool (isWithCursor (serviceOptions ?S))
                         then [Name ''hasNextPage'', Name ''endCursor'']
                         else [Name ''hasNextPage''])),
                      Sub (if truthyBool (isWithCursor (serviceOptions ?S))
                           then QueryBuilder ''edges'' [] [Name ''cursor'', Obj ''node'' selection]
                           else QueryBuilder ''nodes'' [] selection)])]"
    by (rule buildQueryQb_Inr)
  from addDatasetFilters_sorting [OF a assms(2)] obtain r where
    r: "paginationOptions (serviceOptions ?S) = Defined r"
    and o: "map_of (store this' r) ''orderBy'' = Some (SortBy s)" by blast
  from doc r have "queryQb = QueryBuilder ''query'' []
      [Sub (QueryBuilder dsName (store this' r)
         [Name ''totalCount'',
                      Sub (QueryBuilder ''pageInfo'' []
                        (if truthyBool (isWithCursor (serviceOptions ?S))
                         then [Name ''hasNextPage'', Name ''endCursor'']
                         else [Name ''hasNextPage''])),
                      Sub (if truthyBool (isWithCursor (serviceOptions ?S))
                           then QueryBuilder ''edges'' [] [Name ''cursor'', Obj ''node'' selection]
                           else QueryBuilder ''nodes'' [] selection)])]"
    by simp
  with q t o replacer_trimDoubleQuotesOnEnumField [of "toStr queryQb" enumSearchWords]
  show ?thesis by blast
qed

lemma setPaginationOptions_frame:
  "datasetName (serviceOptions (setPaginationOptions args this)) = datasetName (serviceOptions this)"
  "dataFilters (serviceOptions (setPaginationOptions args this)) = dataFilters (serviceOptions this)"
  "isWithCursor (serviceOptions (setPaginationOptions args this)) = isWithCursor (serviceOptions this)"
  "sortingOptions (serviceOptions (setPaginationOptions args this)) = sortingOptions (serviceOptions this)"
  "filteringOptions (serviceOptions (setPaginationOptions args this)) = filteringOptions (serviceOptions this)"
  by (simp_all add: setPaginationOptions_def newObject_def updateOptions_def spread_def spreadKey_def
      emptyOptions_def Let_def)

lemma setPaginationOptions_object:
  "paginationOptions (serviceOptions (setPaginationOptions args this)) = Defined (nextRef this)"
  "store (setPaginationOptions args this) (nextRef this) =
     (if truthyBool (isWithCursor (serviceOptions this))
      then [(''first'', Num (pageSize args))]
      else [(''first'', Num (pageSize args)),
            (''offset'', Num (jsTimes (jsMinus (newPage args) (Finite 1)) (pageSize args)))])"
  by (simp_all add: setPaginationOptions_def newObject_def updateOptions_def spread_def spreadKey_def
      emptyOptions_def Let_def)

subsection \<open>The worked examples, evaluated\<close>

lemmas service_eval = usersService_def usersCursorService_def emptyService_def initOptions_def
  emptyOptions_def updateOptions_def spread_def spreadKey_def buildQuery_def buildQueryQb_def
  addDatasetFilters_def assignProperty_def setProperty_def newQueryBuilder_def findQb_def
  filterQb_def Let_def enumSearchWords_def defaultOrderBy_def
  onSortChanged_def setSortingOptions_def onPaginationChanged_def setPaginationOptions_def
  newObject_def page3_def noSortColumn_def twoSortColumns_def twoColumns_def
  jsMinus_def jsTimes_def toDouble_def

lemmas spec_eval = specArguments_def quoted_def showInt_def

lemma users_query:
  "buildQuery specToString usersService =
     (Inr ''query { users { totalCount, pageInfo { hasNextPage }, nodes { id, name } } }'',
      usersService)"
  by (simp add: service_eval spec_eval fixer_eval)

lemma users_cursor_query:
  "buildQuery specToString usersCursorService =
     (Inr ''query { users { totalCount, pageInfo { hasNextPage, endCursor }, edges { cursor, node { id, name } } } }'',
      usersCursorService)"
  by (simp add: service_eval spec_eval fixer_eval)

lemma page3_offset_text:
  "fst (onPaginationChanged specToString page3 usersService) =
     Inr ''query { users(first:20, offset:40) { totalCount, pageInfo { hasNextPage }, nodes { id, name } } }''"
  by (simp add: service_eval spec_eval fixer_eval)

lemma page3_cursor_text:
  "fst (onPaginationChanged specToString page3 usersCursorService) =
     Inr ''query { users(first:20) { totalCount, pageInfo { hasNextPage, endCursor }, edges { cursor, node { id, name } } } }''"
  by (simp add: service_eval spec_eval fixer_eval)

lemma paged_sort_default_text:
  "fst (onSortChanged specToString noSortColumn pagedUsersService) =
     Inr ''query { users(first:20, offset:40, orderBy:[{sort:id, direction:ASC}]) { totalCount, pageInfo { hasNextPage }, nodes { id, name } } }''"
  by (simp add: pagedUsersService_def service_eval spec_eval fixer_eval)

lemma two_sort_text:
  "fst (onSortChanged specToString twoSortColumns pagedUsersService) =
     Inr ''query { users(first:20, offset:40, orderBy:[{sort:lastName, direction:ASC},{sort:firstName, direction:DESC}]) { totalCount, pageInfo { hasNextPage }, nodes { id, name } } }''"
  by (simp add: pagedUsersService_def service_eval spec_eval fixer_eval)

text \<open>
  The \<open>orderBy\<close> arguments as the spec shows them serialised, and what the fixer makes of
  them behind a text that leaves no match open.
\<close>

lemma orderBy_default_settled:
  \<open>\<not> leavesMatchOpen enumSearchWords ''orderBy:[{sort:"id", direction:"ASC"}]''\<close>
  by (simp add: leavesMatchOpen_def patternAlternatives_def enumSearchWords_def pendingWord_def
      matchWord_def plainText_def doubleQuote_def isLineTerminator_def)

lemma orderBy_default_fixed:
  \<open>trimDoubleQuotesOnEnumField ''orderBy:[{sort:"id", direction:"ASC"}]'' enumSearchWords
     = ''orderBy:[{sort:id, direction:ASC}]''\<close>
  by (simp add: fixer_eval enumSearchWords_def)

lemma orderBy_two_settled:
  \<open>\<not> leavesMatchOpen enumSearchWords
       ''orderBy:[{sort:"lastName", direction:"ASC"},{sort:"firstName", direction:"DESC"}]''\<close>
  by (simp add: leavesMatchOpen_def patternAlternatives_def enumSearchWords_def pendingWord_def
      matchWord_def plainText_def doubleQuote_def isLineTerminator_def)

lemma orderBy_two_fixed:
  \<open>trimDoubleQuotesOnEnumField
      ''orderBy:[{sort:"lastName", direction:"ASC"},{sort:"firstName", direction:"DESC"}]''
      enumSearchWords
     = ''orderBy:[{sort:lastName, direction:ASC},{sort:firstName, direction:DESC}]''\<close>
  by (simp add: fixer_eval enumSearchWords_def)

lemma paged_arguments_settled:
  \<open>\<not> leavesMatchOpen enumSearchWords ''query { users(first:20, offset:40, ''\<close>
  by (simp add: leavesMatchOpen_def patternAlternatives_def enumSearchWords_def pendingWord_def
      matchWord_def plainText_def doubleQuote_def isLineTerminator_def)

lemma orderBy_default_in_text:
  assumes "\<not> leavesMatchOpen enumSearchWords pre"
  shows \<open>trimDoubleQuotesOnEnumField
           (pre @ ''orderBy:[{sort:"id", direction:"ASC"}]'' @ post) enumSearchWords
         = trimDoubleQuotesOnEnumField pre enumSearchWords
           @ ''orderBy:[{sort:id, direction:ASC}]''
           @ trimDoubleQuotesOnEnumField post enumSearchWords\<close>
  using trimDoubleQuotesOnEnumField_append [OF assms]
    trimDoubleQuotesOnEnumField_append [OF orderBy_default_settled, of post]
  by (simp only: orderBy_default_fixed)

lemma orderBy_two_in_text:
  assumes "\<not> leavesMatchOpen enumSearchWords pre"
  shows \<open>trimDoubleQuotesOnEnumField
           (pre @ ''orderBy:[{sort:"lastName", direction:"ASC"},{sort:"firstName", direction:"DESC"}]''
              @ post) enumSearchWords
         = trimDoubleQuotesOnEnumField pre enumSearchWords
           @ ''orderBy:[{sort:lastName, direction:ASC},{sort:firstName, direction:DESC}]''
           @ trimDoubleQuotesOnEnumField post enumSearchWords\<close>
  using trimDoubleQuotesOnEnumField_append [OF assms]
    trimDoubleQuotesOnEnumField_append [OF orderBy_two_settled, of post]
  by (simp only: orderBy_two_fixed)

text \<open>
  A filter value is no enum value and keeps its quotes. After a plain one no match is
  left open. After one that ends in a search word the closing quote of the value opens a
  match, which takes the next double quote of the text with it: the quote in front of
  the sort field.
\<close>

lemma filtered_arguments_settled:
  \<open>\<not> leavesMatchOpen enumSearchWords
       ''query { users(first:20, offset:40, filterBy:[{fieldName:"name", fieldOperator:"EQ", fieldValue:"abc"}], ''\<close>
  by (simp add: leavesMatchOpen_def patternAlternatives_def enumSearchWords_def pendingWord_def
      matchWord_def plainText_def doubleQuote_def isLineTerminator_def)

lemma filtered_sort_default_text:
  \<open>fst (onSortChanged specToString noSortColumn filteredUsersService) =
     Inr ''query { users(first:20, offset:40, filterBy:[{fieldName:name, fieldOperator:EQ, fieldValue:"abc"}], orderBy:[{sort:id, direction:ASC}]) { totalCount, pageInfo { hasNextPage }, nodes { id, name } } }''\<close>
  by (simp add: filteredUsersService_def plainFilter_def pagedUsersService_def
      service_eval spec_eval fixer_eval)

lemma filtered_two_sort_text:
  \<open>fst (onSortChanged specToString twoSortColumns filteredUsersService) =
     Inr ''query { users(first:20, offset:40, filterBy:[{fieldName:name, fieldOperator:EQ, fieldValue:"abc"}], orderBy:[{sort:lastName, direction:ASC},{sort:firstName, direction:DESC}]) { totalCount, pageInfo { hasNextPage }, nodes { id, name } } }''\<close>
  by (simp add: filteredUsersService_def plainFilter_def pagedUsersService_def
      service_eval spec_eval fixer_eval)

lemma search_word_filter_open:
  \<open>leavesMatchOpen enumSearchWords
       ''query { users(first:20, offset:40, filterBy:[{fieldName:"name", fieldOperator:"EQ", fieldValue:"sort:"}], ''\<close>
  by (simp add: leavesMatchOpen_def patternAlternatives_def enumSearchWords_def pendingWord_def
      matchWord_def plainText_def doubleQuote_def isLineTerminator_def)

lemma search_word_filter_sort_text:
  \<open>fst (onSortChanged specToString noSortColumn searchWordFilteredService) =
     Inr ''query { users(first:20, offset:40, filterBy:[{fieldName:name, fieldOperator:EQ, fieldValue:"sort:}], orderBy:[{sort:id", direction:ASC}]) { totalCount, pageInfo { hasNextPage }, nodes { id, name } } }''\<close>
  by (simp add: searchWordFilteredService_def searchWordFilter_def pagedUsersService_def
      service_eval spec_eval fixer_eval)

subsection \<open>The claims about the service\<close>

text \<open>
  C1: \<open>buildQuery\<close> is to fail, with the configuration error, only when \<open>datasetName\<close> or
  the field selection is missing. The code has a second failure: with both set, with
  \<open>sortingOptions\<close> or \<open>filteringOptions\<close> set and with no \<open>paginationOptions\<close>, line 37 or
  line 41 writes a property of \<open>undefined\<close>, and \<open>buildQuery\<close> ends in a \<open>TypeError\<close>.
\<close>

theorem buildQuery_TypeError_without_paginationOptions:
  assumes "truthyString (datasetName (serviceOptions this))"
    and "truthy (dataFilters (serviceOptions this))"
    and "valueOf (paginationOptions (serviceOptions this)) = None"
    and "truthy (sortingOptions (serviceOptions this)) \<or> truthy (filteringOptions (serviceOptions this))"
  shows "buildQuery toStr this = (Inl TypeError, this)"
proof (cases rule: configured_cases [of this])
  case missing
  with assms(1,2) show ?thesis by simp
next
  case (configured dsName selection)
  from buildQueryQb_configured [OF configured] addDatasetFilters_undefined [OF assms(3)] assms(4)
  show ?thesis by (simp add: buildQuery_def)
qed

text \<open>
  C1, at the failing input: a service initialised with \<open>datasetName\<close> and \<open>dataFilters\<close>
  only, on its first sort event.
\<close>

theorem buildQuery_TypeError_without_paginationOptions_witness:
  "truthyString (datasetName (serviceOptions (setSortingOptions noSortColumn usersService))) \<and>
   truthy (dataFilters (serviceOptions (setSortingOptions noSortColumn usersService))) \<and>
   valueOf (paginationOptions (serviceOptions (setSortingOptions noSortColumn usersService))) = None \<and>
   truthy (sortingOptions (serviceOptions (setSortingOptions noSortColumn usersService))) \<and>
   onSortChanged specToString noSortColumn usersService
     = (Inl TypeError, setSortingOptions noSortColumn usersService)"
proof -
  let ?S = "setSortingOptions noSortColumn usersService"
  have a: "truthyString (datasetName (serviceOptions ?S))" by (simp add: service_eval)
  have b: "truthy (dataFilters (serviceOptions ?S))" by (simp add: service_eval)
  have c: "valueOf (paginationOptions (serviceOptions ?S)) = None" by (simp add: service_eval)
  have d: "truthy (sortingOptions (serviceOptions ?S))" by (simp add: service_eval)
  from buildQuery_TypeError_without_paginationOptions [OF a b c, of specToString] d
  have "buildQuery specToString ?S = (Inl TypeError, ?S)" by simp
  with a b c d show ?thesis by (simp add: onSortChanged_def)
qed

text \<open>
  C3: on every state on which \<open>buildQuery\<close> succeeds, the returned text is the fixed
  serialisation of the builder \<open>queryQb\<close>, in which the dataset node selects \<open>totalCount\<close>,
  \<open>pageInfo\<close> and the data node. With \<open>isWithCursor\<close> true, \<open>pageInfo\<close> selects
  \<open>hasNextPage\<close> and \<open>endCursor\<close> and the data node is \<open>edges\<close> with \<open>cursor\<close> and a nested
  \<open>node\<close> holding the caller's field selection; otherwise \<open>pageInfo\<close> selects \<open>hasNextPage\<close>
  only and the data node is \<open>nodes\<close> with the field selection itself.
\<close>

theorem buildQuery_mode_consistency:
  assumes "buildQuery toStr this = (Inr queryText, this')"
  shows "\<exists>queryQb dsName args selection.
     buildQueryQb this = (Inr queryQb, this') \<and>
     queryText = trimDoubleQuotesOnEnumField (toStr queryQb) enumSearchWords \<and>
     dataFilters (serviceOptions this) = Defined selection \<and>
     queryQb = QueryBuilder ''query'' []
       [Sub (QueryBuilder dsName args
          [Name ''totalCount'',
           Sub (QueryBuilder ''pageInfo'' []
                  (if truthyBool (isWithCursor (serviceOptions this))
                   then [Name ''hasNextPage'', Name ''endCursor'']
                   else [Name ''hasNextPage''])),
           Sub (if truthyBool (isWithCursor (serviceOptions this))
                then QueryBuilder ''edges'' [] [Name ''cursor'', Obj ''node'' selection]
                else QueryBuilder ''nodes'' [] selection)])]"
proof -
  from assms obtain queryQb where q: "buildQueryQb this = (Inr queryQb, this')"
    and t: "queryText = trimDoubleQuotesOnEnumField (toStr queryQb) enumSearchWords"
    unfolding buildQuery_Inr by blast
  from q show ?thesis
  proof (rule buildQueryQb_Inr)
    fix dsName selection
    assume "dataFilters (serviceOptions this) = Defined selection"
      and "queryQb = QueryBuilder ''query'' []
                  [Sub (QueryBuilder dsName
                     (case valueOf (paginationOptions (serviceOptions this)) of
                        None \<Rightarrow> [] | Some r \<Rightarrow> store this' r)
                     [Name ''totalCount'',
                      Sub (QueryBuilder ''pageInfo'' []
                        (if truthyBool (isWithCursor (serviceOptions this))
                         then [Name ''hasNextPage'', Name ''endCursor'']
                         else [Name ''hasNextPage''])),
                      Sub (if truthyBool (isWithCursor (serviceOptions this))
                           then QueryBuilder ''edges'' [] [Name ''cursor'', Obj ''node'' selection]
                           else QueryBuilder ''nodes'' [] selection)])]"
    with q t show ?thesis by blast
  qed
qed

text \<open>C3 on the two example services, one in each mode.\<close>

theorem buildQuery_mode_consistency_witness:
  "buildQuery specToString usersCursorService =
     (Inr ''query { users { totalCount, pageInfo { hasNextPage, endCursor }, edges { cursor, node { id, name } } } }'',
      usersCursorService) \<and>
   buildQuery specToString usersService =
     (Inr ''query { users { totalCount, pageInfo { hasNextPage }, nodes { id, name } } }'',
      usersService) \<and>
   (\<exists>queryQb. buildQueryQb usersCursorService = (Inr queryQb, usersCursorService)) \<and>
   (\<exists>queryQb. buildQueryQb usersService = (Inr queryQb, usersService))"
proof -
  from buildQuery_mode_consistency [OF users_cursor_query]
  have c: "\<exists>queryQb. buildQueryQb usersCursorService = (Inr queryQb, usersCursorService)"
    by blast
  from buildQuery_mode_consistency [OF users_query]
  have n: "\<exists>queryQb. buildQueryQb usersService = (Inr queryQb, usersService)"
    by blast
  from users_cursor_query users_query c n show ?thesis by (intro conjI)
qed

text \<open>
  C4, as the claim states it, fails: after \<open>onSortChanged\<close> with an empty sort sequence the
  returned text does not contain \<open>orderBy:[{sort: id, direction: ASC}]\<close>. With the
  arguments serialised as the spec shows them, \<open>sort:"id", direction:"ASC"\<close>, the fixer
  deletes the quotes and leaves \<open>sort:id, direction:ASC\<close>, with no space after a colon.
\<close>

theorem onSortChanged_default_orderBy_counterexample:
  "fst (onSortChanged specToString noSortColumn pagedUsersService) = Inr 
       ''query { users(first:20, offset:40, orderBy:[{sort:id, direction:ASC}]) { totalCount, pageInfo { hasNextPage }, nodes { id, name } } }'' \<and>
   \<not> sublist ''orderBy:[{sort: id, direction: ASC}]'' 
       ''query { users(first:20, offset:40, orderBy:[{sort:id, direction:ASC}]) { totalCount, pageInfo { hasNextPage }, nodes { id, name } } }''"
  by (simp add: paged_sort_default_text sublist_Cons_right)

text \<open>
  C4, amended: \<open>onSortChanged\<close> with an empty multi-column sort sequence sets
  \<open>sortingOptions\<close> to the single default entry \<open>{sort: 'id', direction: 'ASC'}\<close>. When it
  returns a text, the dataset arguments of the builder hold \<open>orderBy\<close> with that entry and
  the text is the fixed serialisation of the builder, in which only double quotes are
  deleted. Where the serialisation holds \<open>orderBy:[{sort:"id", direction:"ASC"}]\<close> behind a
  text that leaves no match open, the returned text holds
  \<open>orderBy:[{sort:id, direction:ASC}]\<close> in its place: the enum values without their
  quotes, and no space after a colon.
\<close>

theorem onSortChanged_default_orderBy:
  assumes "multiColumnSort args" and "sortCols args = Some []"
  shows \<open>sortingOptions (serviceOptions (snd (onSortChanged toStr args this)))
           = Defined [defaultOrderBy] \<and>
    (\<forall>queryText this'. onSortChanged toStr args this = (Inr queryText, this') \<longrightarrow>
       (\<exists>queryQb dsName hd body.
          buildQueryQb (setSortingOptions args this) = (Inr queryQb, this') \<and>
          queryQb = QueryBuilder ''query'' [] [Sub (QueryBuilder dsName hd body)] \<and>
          map_of hd ''orderBy'' = Some (SortBy [defaultOrderBy]) \<and>
          queryText = trimDoubleQuotesOnEnumField (toStr queryQb) enumSearchWords \<and>
          replacer queryText = replacer (toStr queryQb) \<and>
          (\<forall>pre post.
             toStr queryQb = pre @ ''orderBy:[{sort:"id", direction:"ASC"}]'' @ post
               \<and> \<not> leavesMatchOpen enumSearchWords pre \<longrightarrow>
             queryText = trimDoubleQuotesOnEnumField pre enumSearchWords
               @ ''orderBy:[{sort:id, direction:ASC}]''
               @ trimDoubleQuotesOnEnumField post enumSearchWords)))\<close>
proof -
  let ?s = "[defaultOrderBy]"
  have s: "sortingOptions (serviceOptions (setSortingOptions args this)) = Defined ?s"
    using setSortingOptions_multi [OF assms, of this] by simp
  then have "sortingOptions (serviceOptions (snd (onSortChanged toStr args this))) = Defined ?s"
    by (simp add: onSortChanged_def buildQuery_serviceOptions)
  moreover have \<open>\<exists>queryQb dsName hd body.
          buildQueryQb (setSortingOptions args this) = (Inr queryQb, this') \<and>
          queryQb = QueryBuilder ''query'' [] [Sub (QueryBuilder dsName hd body)] \<and>
          map_of hd ''orderBy'' = Some (SortBy [defaultOrderBy]) \<and>
          queryText = trimDoubleQuotesOnEnumField (toStr queryQb) enumSearchWords \<and>
          replacer queryText = replacer (toStr queryQb) \<and>
          (\<forall>pre post.
             toStr queryQb = pre @ ''orderBy:[{sort:"id", direction:"ASC"}]'' @ post
               \<and> \<not> leavesMatchOpen enumSearchWords pre \<longrightarrow>
             queryText = trimDoubleQuotesOnEnumField pre enumSearchWords
               @ ''orderBy:[{sort:id, direction:ASC}]''
               @ trimDoubleQuotesOnEnumField post enumSearchWords)\<close>
    if ok: "onSortChanged toStr args this = (Inr queryText, this')" for queryText this'
  proof -
    from onSortChanged_Inr [OF ok s] obtain queryQb dsName hd body where
      q: "buildQueryQb (setSortingOptions args this) = (Inr queryQb, this')"
      and d: "queryQb = QueryBuilder ''query'' [] [Sub (QueryBuilder dsName hd body)]"
      and o: "map_of hd ''orderBy'' = Some (SortBy ?s)"
      and t: "queryText = trimDoubleQuotesOnEnumField (toStr queryQb) enumSearchWords"
      and r: "replacer queryText = replacer (toStr queryQb)"
      by blast
    have f: \<open>\<forall>pre post.
             toStr queryQb = pre @ ''orderBy:[{sort:"id", direction:"ASC"}]'' @ post
               \<and> \<not> leavesMatchOpen enumSearchWords pre \<longrightarrow>
             queryText = trimDoubleQuotesOnEnumField pre enumSearchWords
               @ ''orderBy:[{sort:id, direction:ASC}]''
               @ trimDoubleQuotesOnEnumField post enumSearchWords\<close>
    proof (intro allI impI, elim conjE)
      fix pre post
      assume e: \<open>toStr queryQb = pre @ ''orderBy:[{sort:"id", direction:"ASC"}]'' @ post\<close>
        and n: "\<not> leavesMatchOpen enumSearchWords pre"
      from t e have \<open>queryText = trimDoubleQuotesOnEnumField
          (pre @ ''orderBy:[{sort:"id", direction:"ASC"}]'' @ post) enumSearchWords\<close>
        by (simp only:)
      also note orderBy_default_in_text [OF n, of post]
      finally show \<open>queryText = trimDoubleQuotesOnEnumField pre enumSearchWords
               @ ''orderBy:[{sort:id, direction:ASC}]''
               @ trimDoubleQuotesOnEnumField post enumSearchWords\<close> .
    qed
    from q d o t r f show ?thesis by (intro exI conjI)
  qed
  ultimately show ?thesis by (intro conjI allI impI)
qed

text \<open>
  C4, amended, on the paged example service: the serialisation holds the quoted fragment
  behind \<open>query { users(first:20, offset:40, \<close>, which leaves no match open, and the
  returned text contains \<open>orderBy:[{sort:id, direction:ASC}]\<close>. The same on the service
  with a stored filter, where the text in front holds the quoted filter value.
\<close>

theorem onSortChanged_default_orderBy_witness:
  \<open>multiColumnSort noSortColumn \<and> sortCols noSortColumn = Some [] \<and>
   sortingOptions (serviceOptions (snd (onSortChanged specToString noSortColumn pagedUsersService)))
     = Defined [defaultOrderBy] \<and>
   map_sum id specToString (fst (buildQueryQb (setSortingOptions noSortColumn pagedUsersService)))
     = Inr (''query { users(first:20, offset:40, ''
            @ ''orderBy:[{sort:"id", direction:"ASC"}]''
            @ '') { totalCount, pageInfo { hasNextPage }, nodes { id, name } } }'') \<and>
   \<not> leavesMatchOpen enumSearchWords ''query { users(first:20, offset:40, '' \<and>
   fst (onSortChanged specToString noSortColumn pagedUsersService) = Inr
       ''query { users(first:20, offset:40, orderBy:[{sort:id, direction:ASC}]) { totalCount, pageInfo { hasNextPage }, nodes { id, name } } }'' \<and>
   sublist ''orderBy:[{sort:id, direction:ASC}]''
       ''query { users(first:20, offset:40, orderBy:[{sort:id, direction:ASC}]) { totalCount, pageInfo { hasNextPage }, nodes { id, name } } }'' \<and>
   map_sum id specToString (fst (buildQueryQb (setSortingOptions noSortColumn filteredUsersService)))
     = Inr (''query { users(first:20, offset:40, filterBy:[{fieldName:"name", fieldOperator:"EQ", fieldValue:"abc"}], ''
            @ ''orderBy:[{sort:"id", direction:"ASC"}]''
            @ '') { totalCount, pageInfo { hasNextPage }, nodes { id, name } } }'') \<and>
   \<not> leavesMatchOpen enumSearchWords
       ''query { users(first:20, offset:40, filterBy:[{fieldName:"name", fieldOperator:"EQ", fieldValue:"abc"}], '' \<and>
   fst (onSortChanged specToString noSortColumn filteredUsersService) = Inr
       ''query { users(first:20, offset:40, filterBy:[{fieldName:name, fieldOperator:EQ, fieldValue:"abc"}], orderBy:[{sort:id, direction:ASC}]) { totalCount, pageInfo { hasNextPage }, nodes { id, name } } }''\<close>
proof -
  have a: "multiColumnSort noSortColumn" by (simp add: noSortColumn_def)
  have b: "sortCols noSortColumn = Some []" by (simp add: noSortColumn_def)
  from onSortChanged_default_orderBy [OF a b, of specToString pagedUsersService]
  have c: "sortingOptions
             (serviceOptions (snd (onSortChanged specToString noSortColumn pagedUsersService)))
           = Defined [defaultOrderBy]"
    by (rule conjunct1)
  have d: \<open>map_sum id specToString
             (fst (buildQueryQb (setSortingOptions noSortColumn pagedUsersService)))
           = Inr (''query { users(first:20, offset:40, ''
                  @ ''orderBy:[{sort:"id", direction:"ASC"}]''
                  @ '') { totalCount, pageInfo { hasNextPage }, nodes { id, name } } }'')\<close>
    by (simp add: pagedUsersService_def service_eval spec_eval fixer_eval)
  have e: \<open>sublist ''orderBy:[{sort:id, direction:ASC}]''
       ''query { users(first:20, offset:40, orderBy:[{sort:id, direction:ASC}]) { totalCount, pageInfo { hasNextPage }, nodes { id, name } } }''\<close>
    by (simp add: sublist_Cons_right)
  have g: \<open>map_sum id specToString
             (fst (buildQueryQb (setSortingOptions noSortColumn filteredUsersService)))
           = Inr (''query { users(first:20, offset:40, filterBy:[{fieldName:"name", fieldOperator:"EQ", fieldValue:"abc"}], ''
                  @ ''orderBy:[{sort:"id", direction:"ASC"}]''
                  @ '') { totalCount, pageInfo { hasNextPage }, nodes { id, name } } }'')\<close>
    by (simp add: filteredUsersService_def plainFilter_def pagedUsersService_def
        service_eval spec_eval fixer_eval)
  from a b c d paged_arguments_settled paged_sort_default_text e g filtered_arguments_settled filtered_sort_default_text show ?thesis
    by (intro conjI)
qed

text \<open>
  C5, as the claim states it, fails on its example: after \<open>onSortChanged\<close> with \<open>lastName\<close>
  ascending and \<open>firstName\<close> descending the returned text does not contain
  \<open>orderBy:[{sort: lastName, direction: ASC},{sort: firstName, direction: DESC}]\<close>; the
  fixer puts no space after a colon.
\<close>

theorem onSortChanged_preserves_order_counterexample:
  "fst (onSortChanged specToString twoSortColumns pagedUsersService) = Inr 
       ''query { users(first:20, offset:40, orderBy:[{sort:lastName, direction:ASC},{sort:firstName, direction:DESC}]) { totalCount, pageInfo { hasNextPage }, nodes { id, name } } }'' \<and>
   \<not> sublist ''orderBy:[{sort: lastName, direction: ASC},{sort: firstName, direction: DESC}]''
       
       ''query { users(first:20, offset:40, orderBy:[{sort:lastName, direction:ASC},{sort:firstName, direction:DESC}]) { totalCount, pageInfo { hasNextPage }, nodes { id, name } } }''"
  by (simp add: two_sort_text sublist_Cons_right)

text \<open>
  C5, amended: for every non-empty multi-column sort sequence \<open>onSortChanged\<close> sets
  \<open>sortingOptions\<close> to the sequence of \<open>{sort: fieldName, direction}\<close> in the order of the
  input, where \<open>fieldName\<close> is the column's \<open>field\<close> when it is set and not empty and its
  \<open>id\<close> otherwise, and \<open>direction\<close> is \<open>ASC\<close> for \<open>sortAsc\<close> and \<open>DESC\<close> otherwise. When it
  returns a text, the dataset arguments of the builder hold \<open>orderBy\<close> with that sequence
  and the text is the fixed serialisation of the builder, in which only double quotes are
  deleted. Where the serialisation holds
  \<open>orderBy:[{sort:"lastName", direction:"ASC"},{sort:"firstName", direction:"DESC"}]\<close>
  behind a text that leaves no match open, the returned text holds
  \<open>orderBy:[{sort:lastName, direction:ASC},{sort:firstName, direction:DESC}]\<close> in its
  place, in that order.
\<close>

theorem onSortChanged_preserves_order:
  assumes "multiColumnSort args" and "sortCols args = Some cols" and "cols \<noteq> []"
  shows \<open>sortingOptions (serviceOptions (snd (onSortChanged toStr args this)))
           = Defined (map (\<lambda>column.
               \<lparr>sort_field = (case col_field (sortCol column) of
                                None \<Rightarrow> col_id (sortCol column)
                              | Some f \<Rightarrow> if f \<noteq> [] then f else col_id (sortCol column)),
                direction = (if sortAsc column then ''ASC'' else ''DESC'')\<rparr>) cols) \<and>
    (\<forall>queryText this'. onSortChanged toStr args this = (Inr queryText, this') \<longrightarrow>
       (\<exists>queryQb dsName hd body.
          buildQueryQb (setSortingOptions args this) = (Inr queryQb, this') \<and>
          queryQb = QueryBuilder ''query'' [] [Sub (QueryBuilder dsName hd body)] \<and>
          map_of hd ''orderBy'' = Some (SortBy (map (\<lambda>column.
               \<lparr>sort_field = (case col_field (sortCol column) of
                                None \<Rightarrow> col_id (sortCol column)
                              | Some f \<Rightarrow> if f \<noteq> [] then f else col_id (sortCol column)),
                direction = (if sortAsc column then ''ASC'' else ''DESC'')\<rparr>) cols)) \<and>
          queryText = trimDoubleQuotesOnEnumField (toStr queryQb) enumSearchWords \<and>
          replacer queryText = replacer (toStr queryQb) \<and>
          (\<forall>pre post.
             toStr queryQb = pre @ ''orderBy:[{sort:"lastName", direction:"ASC"},{sort:"firstName", direction:"DESC"}]'' @ post
               \<and> \<not> leavesMatchOpen enumSearchWords pre \<longrightarrow>
             queryText = trimDoubleQuotesOnEnumField pre enumSearchWords
               @ ''orderBy:[{sort:lastName, direction:ASC},{sort:firstName, direction:DESC}]''
               @ trimDoubleQuotesOnEnumField post enumSearchWords)))\<close>
proof -
  let ?s = "(map (\<lambda>column.
               \<lparr>sort_field = (case col_field (sortCol column) of
                                None \<Rightarrow> col_id (sortCol column)
                              | Some f \<Rightarrow> if f \<noteq> [] then f else col_id (sortCol column)),
                direction = (if sortAsc column then ''ASC'' else ''DESC'')\<rparr>) cols)"
  have s: "sortingOptions (serviceOptions (setSortingOptions args this)) = Defined ?s"
    using setSortingOptions_multi [OF assms(1,2), of this] assms(3)
    by (simp add: pushSortColumns_map)
  then have "sortingOptions (serviceOptions (snd (onSortChanged toStr args this))) = Defined ?s"
    by (simp add: onSortChanged_def buildQuery_serviceOptions)
  moreover have \<open>\<exists>queryQb dsName hd body.
          buildQueryQb (setSortingOptions args this) = (Inr queryQb, this') \<and>
          queryQb = QueryBuilder ''query'' [] [Sub (QueryBuilder dsName hd body)] \<and>
          map_of hd ''orderBy'' = Some (SortBy ?s) \<and>
          queryText = trimDoubleQuotesOnEnumField (toStr queryQb) enumSearchWords \<and>
          replacer queryText = replacer (toStr queryQb) \<and>
          (\<forall>pre post.
             toStr queryQb = pre @ ''orderBy:[{sort:"lastName", direction:"ASC"},{sort:"firstName", direction:"DESC"}]'' @ post
               \<and> \<not> leavesMatchOpen enumSearchWords pre \<longrightarrow>
             queryText = trimDoubleQuotesOnEnumField pre enumSearchWords
               @ ''orderBy:[{sort:lastName, direction:ASC},{sort:firstName, direction:DESC}]''
               @ trimDoubleQuotesOnEnumField post enumSearchWords)\<close>
    if ok: "onSortChanged toStr args this = (Inr queryText, this')" for queryText this'
  proof -
    from onSortChanged_Inr [OF ok s] obtain queryQb dsName hd body where
      q: "buildQueryQb (setSortingOptions args this) = (Inr queryQb, this')"
      and d: "queryQb = QueryBuilder ''query'' [] [Sub (QueryBuilder dsName hd body)]"
      and o: "map_of hd ''orderBy'' = Some (SortBy ?s)"
      and t: "queryText = trimDoubleQuotesOnEnumField (toStr queryQb) enumSearchWords"
      and r: "replacer queryText = replacer (toStr queryQb)"
      by blast
    have f: \<open>\<forall>pre post.
             toStr queryQb = pre @ ''orderBy:[{sort:"lastName", direction:"ASC"},{sort:"firstName", direction:"DESC"}]'' @ post
               \<and> \<not> leavesMatchOpen enumSearchWords pre \<longrightarrow>
             queryText = trimDoubleQuotesOnEnumField pre enumSearchWords
               @ ''orderBy:[{sort:lastName, direction:ASC},{sort:firstName, direction:DESC}]''
               @ trimDoubleQuotesOnEnumField post enumSearchWords\<close>
    proof (intro allI impI, elim conjE)
      fix pre post
      assume e: \<open>toStr queryQb = pre @ ''orderBy:[{sort:"lastName", direction:"ASC"},{sort:"firstName", direction:"DESC"}]'' @ post\<close>
        and n: "\<not> leavesMatchOpen enumSearchWords pre"
      from t e have \<open>queryText = trimDoubleQuotesOnEnumField
          (pre @ ''orderBy:[{sort:"lastName", direction:"ASC"},{sort:"firstName", direction:"DESC"}]'' @ post) enumSearchWords\<close>
        by (simp only:)
      also note orderBy_two_in_text [OF n, of post]
      finally show \<open>queryText = trimDoubleQuotesOnEnumField pre enumSearchWords
               @ ''orderBy:[{sort:lastName, direction:ASC},{sort:firstName, direction:DESC}]''
               @ trimDoubleQuotesOnEnumField post enumSearchWords\<close> .
    qed
    from q d o t r f show ?thesis by (intro exI conjI)
  qed
  ultimately show ?thesis by (intro conjI allI impI)
qed

text \<open>
  C5, amended, on the two-column example: the serialisation holds the quoted fragment
  behind \<open>query { users(first:20, offset:40, \<close>, and the returned text contains
  \<open>orderBy:[{sort:lastName, direction:ASC},{sort:firstName, direction:DESC}]\<close>. The same
  on the service with a stored filter.
\<close>

theorem onSortChanged_preserves_order_witness:
  \<open>multiColumnSort twoSortColumns \<and> sortCols twoSortColumns = Some twoColumns \<and>
   twoColumns \<noteq> [] \<and>
   sortingOptions (serviceOptions (snd (onSortChanged specToString twoSortColumns pagedUsersService)))
     = Defined [\<lparr>sort_field = ''lastName'', direction = ''ASC''\<rparr>,
                \<lparr>sort_field = ''firstName'', direction = ''DESC''\<rparr>] \<and>
   map_sum id specToString (fst (buildQueryQb (setSortingOptions twoSortColumns pagedUsersService)))
     = Inr (''query { users(first:20, offset:40, ''
            @ ''orderBy:[{sort:"lastName", direction:"ASC"},{sort:"firstName", direction:"DESC"}]''
            @ '') { totalCount, pageInfo { hasNextPage }, nodes { id, name } } }'') \<and>
   \<not> leavesMatchOpen enumSearchWords ''query { users(first:20, offset:40, '' \<and>
   fst (onSortChanged specToString twoSortColumns pagedUsersService) = Inr
       ''query { users(first:20, offset:40, orderBy:[{sort:lastName, direction:ASC},{sort:firstName, direction:DESC}]) { totalCount, pageInfo { hasNextPage }, nodes { id, name } } }'' \<and>
   sublist ''orderBy:[{sort:lastName, direction:ASC},{sort:firstName, direction:DESC}]''
       ''query { users(first:20, offset:40, orderBy:[{sort:lastName, direction:ASC},{sort:firstName, direction:DESC}]) { totalCount, pageInfo { hasNextPage }, nodes { id, name } } }'' \<and>
   map_sum id specToString (fst (buildQueryQb (setSortingOptions twoSortColumns filteredUsersService)))
     = Inr (''query { users(first:20, offset:40, filterBy:[{fieldName:"name", fieldOperator:"EQ", fieldValue:"abc"}], ''
            @ ''orderBy:[{sort:"lastName", direction:"ASC"},{sort:"firstName", direction:"DESC"}]''
            @ '') { totalCount, pageInfo { hasNextPage }, nodes { id, name } } }'') \<and>
   \<not> leavesMatchOpen enumSearchWords
       ''query { users(first:20, offset:40, filterBy:[{fieldName:"name", fieldOperator:"EQ", fieldValue:"abc"}], '' \<and>
   fst (onSortChanged specToString twoSortColumns filteredUsersService) = Inr
       ''query { users(first:20, offset:40, filterBy:[{fieldName:name, fieldOperator:EQ, fieldValue:"abc"}], orderBy:[{sort:lastName, direction:ASC},{sort:firstName, direction:DESC}]) { totalCount, pageInfo { hasNextPage }, nodes { id, name } } }''\<close>
proof -
  have a: "multiColumnSort twoSortColumns" by (simp add: twoSortColumns_def)
  have b: "sortCols twoSortColumns = Some twoColumns" by (simp add: twoSortColumns_def)
  have c: "twoColumns \<noteq> []" by (simp add: twoColumns_def)
  from onSortChanged_preserves_order [OF a b c, of specToString pagedUsersService]
  have d: "sortingOptions
             (serviceOptions (snd (onSortChanged specToString twoSortColumns pagedUsersService)))
           = Defined [\<lparr>sort_field = ''lastName'', direction = ''ASC''\<rparr>,
                      \<lparr>sort_field = ''firstName'', direction = ''DESC''\<rparr>]"
    by (simp add: twoColumns_def)
  have e: \<open>map_sum id specToString
             (fst (buildQueryQb (setSortingOptions twoSortColumns pagedUsersService)))
           = Inr (''query { users(first:20, offset:40, ''
                  @ ''orderBy:[{sort:"lastName", direction:"ASC"},{sort:"firstName", direction:"DESC"}]''
                  @ '') { totalCount, pageInfo { hasNextPage }, nodes { id, name } } }'')\<close>
    by (simp add: pagedUsersService_def service_eval spec_eval fixer_eval)
  have f: \<open>sublist ''orderBy:[{sort:lastName, direction:ASC},{sort:firstName, direction:DESC}]''
       ''query { users(first:20, offset:40, orderBy:[{sort:lastName, direction:ASC},{sort:firstName, direction:DESC}]) { totalCount, pageInfo { hasNextPage }, nodes { id, name } } }''\<close>
    by (simp add: sublist_Cons_right)
  have g: \<open>map_sum id specToString
             (fst (buildQueryQb (setSortingOptions twoSortColumns filteredUsersService)))
           = Inr (''query { users(first:20, offset:40, filterBy:[{fieldName:"name", fieldOperator:"EQ", fieldValue:"abc"}], ''
                  @ ''orderBy:[{sort:"lastName", direction:"ASC"},{sort:"firstName", direction:"DESC"}]''
                  @ '') { totalCount, pageInfo { hasNextPage }, nodes { id, name } } }'')\<close>
    by (simp add: filteredUsersService_def plainFilter_def pagedUsersService_def
        service_eval spec_eval fixer_eval)
  from a b c d e paged_arguments_settled two_sort_text f g filtered_arguments_settled filtered_two_sort_text show ?thesis
    by (intro conjI)
qed

lemma toDouble_exact: "\<bar>z\<bar> \<le> 2 ^ 53 \<Longrightarrow> toDouble z = Finite z"
  unfolding toDouble_def Let_def by (simp add: nat_le_iff)

text \<open>
  Up to \<open>2^53\<close> the doubles are the whole numbers, and the offset of a page is the exact
  product.
\<close>

lemma offset_exact:
  assumes "1 \<le> n" and "n \<le> 2 ^ 53" and "0 \<le> s" and "(n - 1) * s \<le> 2 ^ 53"
  shows "jsTimes (jsMinus (Finite n) (Finite 1)) (Finite s) = Finite ((n - 1) * s)"
proof -
  have m: "jsMinus (Finite n) (Finite 1) = Finite (n - 1)"
    using assms(1,2) by (simp add: jsMinus_def toDouble_exact)
  have "0 \<le> (n - 1) * s" using assms(1,3) by simp
  with assms(4) have "\<bar>(n - 1) * s\<bar> \<le> 2 ^ 53" by simp
  with m assms(1,3) show ?thesis
    by (auto simp add: jsTimes_def toDouble_exact)
qed

text \<open>
  C6: for every page size and page number that are whole numbers of the program,
  \<open>onPaginationChanged\<close> sets \<open>paginationOptions\<close> to a new object,
  \<open>{first: pageSize, offset: (newPage - 1) * pageSize}\<close> in offset mode and
  \<open>{first: pageSize}\<close> in cursor mode; the difference and the product are those of the
  program's numbers, and the offset is the exact product \<open>(newPage - 1) * pageSize\<close> for a
  page number from 1, a page size from 0 and a product up to \<open>2^53\<close>. When a text is
  returned, it is the fixed serialisation of the builder whose dataset arguments are that
  object, followed by \<open>orderBy\<close> and \<open>filterBy\<close> when sorting and filtering options are
  set: \<open>offset\<close> has the value stored in offset mode and is no key in cursor mode.
\<close>

theorem onPaginationChanged_paginationOptions:
  assumes "isNumber (pageSize args)" and "isNumber (newPage args)"
  shows
  "paginationOptions (serviceOptions (setPaginationOptions args this)) = Defined (nextRef this) \<and>
   store (setPaginationOptions args this) (nextRef this) =
     (if truthyBool (isWithCursor (serviceOptions this))
      then [(''first'', Num (pageSize args))]
      else [(''first'', Num (pageSize args)),
            (''offset'', Num (jsTimes (jsMinus (newPage args) (Finite 1)) (pageSize args)))]) \<and>
   (\<forall>queryText this'. onPaginationChanged toStr args this = (Inr queryText, this') \<longrightarrow>
      (\<exists>queryQb dsName body.
         buildQueryQb (setPaginationOptions args this) = (Inr queryQb, this') \<and>
         queryText = trimDoubleQuotesOnEnumField (toStr queryQb) enumSearchWords \<and>
         queryQb = QueryBuilder ''query'' []
                     [Sub (QueryBuilder dsName (store this' (nextRef this)) body)] \<and>
         paginationOptions (serviceOptions this') = Defined (nextRef this) \<and>
         store this' (nextRef this) =
           (if truthyBool (isWithCursor (serviceOptions this))
            then [(''first'', Num (pageSize args))]
            else [(''first'', Num (pageSize args)),
                  (''offset'', Num (jsTimes (jsMinus (newPage args) (Finite 1)) (pageSize args)))])
           @ (case sortingOptions (serviceOptions this) of
                Defined s \<Rightarrow> [(''orderBy'', SortBy s)] | _ \<Rightarrow> [])
           @ (case filteringOptions (serviceOptions this) of
                Defined f \<Rightarrow> [(''filterBy'', FilterBy f)] | _ \<Rightarrow> []) \<and>
         (if truthyBool (isWithCursor (serviceOptions this))
          then map_of (store this' (nextRef this)) ''offset'' = None
          else map_of (store this' (nextRef this)) ''offset''
                 = Some (Num (jsTimes (jsMinus (newPage args) (Finite 1)) (pageSize args)))))) \<and>
   (\<forall>n s. newPage args = Finite n \<and> pageSize args = Finite s
            \<and> 1 \<le> n \<and> n \<le> 2 ^ 53 \<and> 0 \<le> s \<and> (n - 1) * s \<le> 2 ^ 53 \<longrightarrow>
          jsTimes (jsMinus (newPage args) (Finite 1)) (pageSize args) = Finite ((n - 1) * s))"
proof -
  let ?S = "setPaginationOptions args this"
  let ?r = "nextRef this"
  let ?base = "if truthyBool (isWithCursor (serviceOptions this))
      then [(''first'', Num (pageSize args))]
      else [(''first'', Num (pageSize args)),
            (''offset'', Num (jsTimes (jsMinus (newPage args) (Finite 1)) (pageSize args)))]"
  note p = setPaginationOptions_object [of args this]
  have "\<exists>queryQb dsName body.
         buildQueryQb ?S = (Inr queryQb, this') \<and>
         queryText = trimDoubleQuotesOnEnumField (toStr queryQb) enumSearchWords \<and>
         queryQb = QueryBuilder ''query'' [] [Sub (QueryBuilder dsName (store this' ?r) body)] \<and>
         paginationOptions (serviceOptions this') = Defined ?r \<and>
         store this' ?r = ?base
           @ (case sortingOptions (serviceOptions this) of
                Defined s \<Rightarrow> [(''orderBy'', SortBy s)] | _ \<Rightarrow> [])
           @ (case filteringOptions (serviceOptions this) of
                Defined f \<Rightarrow> [(''filterBy'', FilterBy f)] | _ \<Rightarrow> []) \<and>
         (if truthyBool (isWithCursor (serviceOptions this))
          then map_of (store this' ?r) ''offset'' = None
          else map_of (store this' ?r) ''offset''
                 = Some (Num (jsTimes (jsMinus (newPage args) (Finite 1)) (pageSize args))))"
    if ok: "onPaginationChanged toStr args this = (Inr queryText, this')" for queryText this'
  proof -
    from ok obtain queryQb where q: "buildQueryQb ?S = (Inr queryQb, this')"
      and t: "queryText = trimDoubleQuotesOnEnumField (toStr queryQb) enumSearchWords"
      unfolding onPaginationChanged_def buildQuery_Inr by blast
    from q obtain dsName selection where
      a: "addDatasetFilters ?S = Inr this'"
      and doc: "queryQb = QueryBuilder ''query'' []
                  [Sub (QueryBuilder dsName
                     (case valueOf (paginationOptions (serviceOptions ?S)) of
                        None \<Rightarrow> [] | Some r \<Rightarrow> store this' r)
                     [Name ''totalCount'',
                      Sub (QueryBuilder ''pageInfo'' []
                        (if truthyBool (isWithCursor (serviceOptions ?S))
                         then [Name ''hasNextPage'', Name ''endCursor'']
                         else [Name ''hasNextPage''])),
                      Sub (if truthyBool (isWithCursor (serviceOptions ?S))
                           then QueryBuilder ''edges'' [] [Name ''cursor'', Obj ''node'' selection]
                           else QueryBuilder ''nodes'' [] selection)])]"
      by (rule buildQueryQb_Inr)
    from addDatasetFilters_frame [OF a] p(1)
    have so: "paginationOptions (serviceOptions this') = Defined ?r" by simp
    from addDatasetFilters_Defined [OF p(1)] a
    have obj: "store this' ?r = ?base
           @ (case sortingOptions (serviceOptions this) of
                Defined s \<Rightarrow> [(''orderBy'', SortBy s)] | _ \<Rightarrow> [])
           @ (case filteringOptions (serviceOptions this) of
                Defined f \<Rightarrow> [(''filterBy'', FilterBy f)] | _ \<Rightarrow> [])"
      by (auto simp add: p(2) setPaginationOptions_frame Let_def setProperty_def
          split: optional.splits)
    have off: "if truthyBool (isWithCursor (serviceOptions this))
          then map_of (store this' ?r) ''offset'' = None
          else map_of (store this' ?r) ''offset''
                 = Some (Num (jsTimes (jsMinus (newPage args) (Finite 1)) (pageSize args)))"
      unfolding obj by (simp split: optional.splits)
    from doc p(1) have "queryQb = QueryBuilder ''query'' []
        [Sub (QueryBuilder dsName (store this' ?r)
           [Name ''totalCount'',
                      Sub (QueryBuilder ''pageInfo'' []
                        (if truthyBool (isWithCursor (serviceOptions ?S))
                         then [Name ''hasNextPage'', Name ''endCursor'']
                         else [Name ''hasNextPage''])),
                      Sub (if truthyBool (isWithCursor (serviceOptions ?S))
                           then QueryBuilder ''edges'' [] [Name ''cursor'', Obj ''node'' selection]
                           else QueryBuilder ''nodes'' [] selection)])]"
      by simp
    with q t so obj off show ?thesis by blast
  qed
  moreover have "\<forall>n s. newPage args = Finite n \<and> pageSize args = Finite s
            \<and> 1 \<le> n \<and> n \<le> 2 ^ 53 \<and> 0 \<le> s \<and> (n - 1) * s \<le> 2 ^ 53 \<longrightarrow>
          jsTimes (jsMinus (newPage args) (Finite 1)) (pageSize args) = Finite ((n - 1) * s)"
    by (auto simp add: offset_exact)
  ultimately show ?thesis using p by blast
qed

text \<open>
  C6 for \<open>pageSize = 20\<close> and \<open>newPage = 3\<close>: \<open>first:20, offset:40\<close> in offset mode,
  \<open>first:20\<close> alone in cursor mode.
\<close>

theorem onPaginationChanged_paginationOptions_witness:
  "isNumber (pageSize page3) \<and> isNumber (newPage page3) \<and>
   store (setPaginationOptions page3 usersService) (nextRef usersService)
     = [(''first'', Num (Finite 20)), (''offset'', Num (Finite 40))] \<and>
   fst (onPaginationChanged specToString page3 usersService) = Inr
       ''query { users(first:20, offset:40) { totalCount, pageInfo { hasNextPage }, nodes { id, name } } }'' \<and>
   store (setPaginationOptions page3 usersCursorService) (nextRef usersCursorService)
     = [(''first'', Num (Finite 20))] \<and>
   fst (onPaginationChanged specToString page3 usersCursorService) = Inr
       ''query { users(first:20) { totalCount, pageInfo { hasNextPage, endCursor }, edges { cursor, node { id, name } } } }''"
proof -
  have s: "isNumber (pageSize page3)" by (simp add: page3_def isNumber_def toDouble_exact)
  have n: "isNumber (newPage page3)" by (simp add: page3_def isNumber_def toDouble_exact)
  have o: "\<not> truthyBool (isWithCursor (serviceOptions usersService))"
    by (simp add: service_eval)
  have c: "truthyBool (isWithCursor (serviceOptions usersCursorService))"
    by (simp add: service_eval)
  have e: "jsTimes (jsMinus (newPage page3) (Finite 1)) (pageSize page3) = Finite 40"
    by (simp add: page3_def jsTimes_def jsMinus_def toDouble_exact)
  from onPaginationChanged_paginationOptions [OF s n, of usersService specToString] o e
  have a: "store (setPaginationOptions page3 usersService) (nextRef usersService)
             = [(''first'', Num (Finite 20)), (''offset'', Num (Finite 40))]"
    by (simp add: page3_def)
  from onPaginationChanged_paginationOptions [OF s n, of usersCursorService specToString] c
  have b: "store (setPaginationOptions page3 usersCursorService) (nextRef usersCursorService)
             = [(''first'', Num (Finite 20))]"
    by (simp add: page3_def)
  from s n a page3_offset_text b page3_cursor_text show ?thesis by (intro conjI)
qed

text \<open>
  C9: \<open>updateOptions\<close> is a shallow merge. Every top-level key present in the argument
  replaces the key of the state as a whole (for \<open>paginationOptions\<close>: the reference is
  replaced, and no object of the store is touched), every key absent from the argument is
  left as it is, and a call with no argument changes nothing.
\<close>

theorem updateOptions_shallow_merge:
  "updateOptions None this = this \<and>
   datasetName (serviceOptions (updateOptions (Some p) this))
     = (if datasetName p = Absent then datasetName (serviceOptions this) else datasetName p) \<and>
   dataFilters (serviceOptions (updateOptions (Some p) this))
     = (if dataFilters p = Absent then dataFilters (serviceOptions this) else dataFilters p) \<and>
   isWithCursor (serviceOptions (updateOptions (Some p) this))
     = (if isWithCursor p = Absent then isWithCursor (serviceOptions this) else isWithCursor p) \<and>
   paginationOptions (serviceOptions (updateOptions (Some p) this))
     = (if paginationOptions p = Absent then paginationOptions (serviceOptions this)
        else paginationOptions p) \<and>
   sortingOptions (serviceOptions (updateOptions (Some p) this))
     = (if sortingOptions p = Absent then sortingOptions (serviceOptions this)
        else sortingOptions p) \<and>
   filteringOptions (serviceOptions (updateOptions (Some p) this))
     = (if filteringOptions p = Absent then filteringOptions (serviceOptions this)
        else filteringOptions p) \<and>
   store (updateOptions (Some p) this) = store this \<and>
   nextRef (updateOptions (Some p) this) = nextRef this"
  by (simp add: updateOptions_def spread_def spreadKey_def split: optional.splits)

text \<open>
  C9 on the paged example service: a new \<open>paginationOptions\<close> replaces the old reference,
  \<open>datasetName\<close> stays, and the object the old reference pointed to is as it was.
\<close>

theorem updateOptions_shallow_merge_witness:
  "paginationOptions (serviceOptions
      (updateOptions (Some (emptyOptions\<lparr>paginationOptions := Defined 7\<rparr>)) pagedUsersService))
     = Defined 7 \<and>
   datasetName (serviceOptions
      (updateOptions (Some (emptyOptions\<lparr>paginationOptions := Defined 7\<rparr>)) pagedUsersService))
     = Defined ''users'' \<and>
   store (updateOptions (Some (emptyOptions\<lparr>paginationOptions := Defined 7\<rparr>)) pagedUsersService) 0
     = [(''first'', Num (Finite 20)), (''offset'', Num (Finite 40))]"
proof -
  have d: "datasetName (serviceOptions pagedUsersService) = Defined ''users''"
    by (simp add: pagedUsersService_def service_eval)
  have s: "store pagedUsersService 0 = [(''first'', Num (Finite 20)), (''offset'', Num (Finite 40))]"
    by (simp add: pagedUsersService_def service_eval)
  from updateOptions_shallow_merge
         [of pagedUsersService "emptyOptions\<lparr>paginationOptions := Defined 7\<rparr>"] d s
  show ?thesis by (simp add: emptyOptions_def)
qed

text \<open>
  C10: \<open>buildQuery\<close> is not read-only. On every successful call the options are as before,
  but with \<open>sortingOptions\<close> set the object that \<open>paginationOptions\<close> refers to holds
  \<open>orderBy\<close> afterwards, and with \<open>filteringOptions\<close> set it holds \<open>filterBy\<close>. The key stays:
  when \<open>sortingOptions\<close> (or \<open>filteringOptions\<close>) is then set to \<open>undefined\<close>, the next call
  succeeds again and the dataset arguments of its builder still hold that \<open>orderBy\<close> (or
  \<open>filterBy\<close>).
\<close>

theorem buildQuery_writes_paginationOptions:
  assumes "buildQuery toStr this = (Inr queryText, this')"
  shows "serviceOptions this' = serviceOptions this \<and>
    (\<forall>s. sortingOptions (serviceOptions this) = Defined s \<longrightarrow>
       (\<exists>r. paginationOptions (serviceOptions this) = Defined r \<and>
            map_of (store this' r) ''orderBy'' = Some (SortBy s) \<and>
            (\<exists>queryQb this'' dsName args body.
               buildQueryQb (updateOptions (Some (emptyOptions\<lparr>sortingOptions := Undefined\<rparr>)) this')
                 = (Inr queryQb, this'') \<and>
               queryQb = QueryBuilder ''query'' [] [Sub (QueryBuilder dsName args body)] \<and>
               map_of args ''orderBy'' = Some (SortBy s)))) \<and>
    (\<forall>f. filteringOptions (serviceOptions this) = Defined f \<longrightarrow>
       (\<exists>r. paginationOptions (serviceOptions this) = Defined r \<and>
            map_of (store this' r) ''filterBy'' = Some (FilterBy f) \<and>
            (\<exists>queryQb this'' dsName args body.
               buildQueryQb (updateOptions (Some (emptyOptions\<lparr>filteringOptions := Undefined\<rparr>)) this')
                 = (Inr queryQb, this'') \<and>
               queryQb = QueryBuilder ''query'' [] [Sub (QueryBuilder dsName args body)] \<and>
               map_of args ''filterBy'' = Some (FilterBy f))))"
proof -
  from assms obtain queryQb where q: "buildQueryQb this = (Inr queryQb, this')"
    unfolding buildQuery_Inr by blast
  from q obtain dsName selection where
    n: "datasetName (serviceOptions this) = Defined dsName" "dsName \<noteq> []"
    and d: "dataFilters (serviceOptions this) = Defined selection"
    and a: "addDatasetFilters this = Inr this'"
    by (rule buildQueryQb_Inr)
  from addDatasetFilters_frame [OF a] have so: "serviceOptions this' = serviceOptions this"
    by simp
  have sorting: "\<exists>r. paginationOptions (serviceOptions this) = Defined r \<and>
            map_of (store this' r) ''orderBy'' = Some (SortBy s) \<and>
            (\<exists>queryQb this'' dsName args body.
               buildQueryQb (updateOptions (Some (emptyOptions\<lparr>sortingOptions := Undefined\<rparr>)) this')
                 = (Inr queryQb, this'') \<and>
               queryQb = QueryBuilder ''query'' [] [Sub (QueryBuilder dsName args body)] \<and>
               map_of args ''orderBy'' = Some (SortBy s))"
    if s: "sortingOptions (serviceOptions this) = Defined s" for s
  proof -
    from addDatasetFilters_sorting [OF a s] obtain r where
      r: "paginationOptions (serviceOptions this) = Defined r"
      and o: "map_of (store this' r) ''orderBy'' = Some (SortBy s)" by blast
    let ?S = "updateOptions (Some (emptyOptions\<lparr>sortingOptions := Undefined\<rparr>)) this'"
    have "\<exists>queryQb this'' args body.
           buildQueryQb ?S = (Inr queryQb, this'') \<and>
           queryQb = QueryBuilder ''query'' [] [Sub (QueryBuilder dsName args body)] \<and>
           map_of args ''orderBy'' = Some (SortBy s)"
      using n d r o so
      by (intro buildQueryQb_keeps_key [where r = r and selection = selection])
         (simp_all add: updateOptions_def spread_def spreadKey_def emptyOptions_def)
    with r o show ?thesis by blast
  qed
  have filtering: "\<exists>r. paginationOptions (serviceOptions this) = Defined r \<and>
            map_of (store this' r) ''filterBy'' = Some (FilterBy f) \<and>
            (\<exists>queryQb this'' dsName args body.
               buildQueryQb (updateOptions (Some (emptyOptions\<lparr>filteringOptions := Undefined\<rparr>)) this')
                 = (Inr queryQb, this'') \<and>
               queryQb = QueryBuilder ''query'' [] [Sub (QueryBuilder dsName args body)] \<and>
               map_of args ''filterBy'' = Some (FilterBy f))"
    if f: "filteringOptions (serviceOptions this) = Defined f" for f
  proof -
    from addDatasetFilters_filtering [OF a f] obtain r where
      r: "paginationOptions (serviceOptions this) = Defined r"
      and o: "map_of (store this' r) ''filterBy'' = Some (FilterBy f)" by blast
    let ?S = "updateOptions (Some (emptyOptions\<lparr>filteringOptions := Undefined\<rparr>)) this'"
    have "\<exists>queryQb this'' args body.
           buildQueryQb ?S = (Inr queryQb, this'') \<and>
           queryQb = QueryBuilder ''query'' [] [Sub (QueryBuilder dsName args body)] \<and>
           map_of args ''filterBy'' = Some (FilterBy f)"
      using n d r o so
      by (intro buildQueryQb_keeps_key [where r = r and selection = selection])
         (simp_all add: updateOptions_def spread_def spreadKey_def emptyOptions_def)
    with r o show ?thesis by blast
  qed
  from so sorting filtering show ?thesis by blast
qed

text \<open>
  C10 on the paged example service after a sort event: the stored object holds \<open>orderBy\<close>,
  and once \<open>sortingOptions\<close> is undefined again the query text is the same as before.
\<close>

theorem buildQuery_writes_paginationOptions_witness:
  "buildQuery specToString (setSortingOptions noSortColumn pagedUsersService)
     = (Inr 
       ''query { users(first:20, offset:40, orderBy:[{sort:id, direction:ASC}]) { totalCount, pageInfo { hasNextPage }, nodes { id, name } } }'', snd (buildQuery specToString (setSortingOptions noSortColumn pagedUsersService))) \<and>
   map_of (store (snd (buildQuery specToString
                         (setSortingOptions noSortColumn pagedUsersService))) 0) ''orderBy''
     = Some (SortBy [defaultOrderBy]) \<and>
   sortingOptions (serviceOptions
      (updateOptions (Some (emptyOptions\<lparr>sortingOptions := Undefined\<rparr>))
         (snd (buildQuery specToString (setSortingOptions noSortColumn pagedUsersService)))))
     = Undefined \<and>
   fst (buildQuery specToString
          (updateOptions (Some (emptyOptions\<lparr>sortingOptions := Undefined\<rparr>))
             (snd (buildQuery specToString (setSortingOptions noSortColumn pagedUsersService)))))
     = Inr 
       ''query { users(first:20, offset:40, orderBy:[{sort:id, direction:ASC}]) { totalCount, pageInfo { hasNextPage }, nodes { id, name } } }''"
proof -
  let ?S = "setSortingOptions noSortColumn pagedUsersService"
  have f: "fst (buildQuery specToString ?S) = Inr 
       ''query { users(first:20, offset:40, orderBy:[{sort:id, direction:ASC}]) { totalCount, pageInfo { hasNextPage }, nodes { id, name } } }''"
    using paged_sort_default_text by (simp add: onSortChanged_def)
  then have h: "buildQuery specToString ?S = (Inr 
       ''query { users(first:20, offset:40, orderBy:[{sort:id, direction:ASC}]) { totalCount, pageInfo { hasNextPage }, nodes { id, name } } }'', snd (buildQuery specToString ?S))"
    by (simp add: prod_eq_iff)
  have s: "sortingOptions (serviceOptions ?S) = Defined [defaultOrderBy]"
    by (simp add: pagedUsersService_def service_eval)
  have p: "paginationOptions (serviceOptions ?S) = Defined 0"
    by (simp add: pagedUsersService_def service_eval)
  from buildQuery_writes_paginationOptions [OF h] s p
  have o: "map_of (store (snd (buildQuery specToString ?S)) 0) ''orderBy''
             = Some (SortBy [defaultOrderBy])"
    by auto
  have u: "sortingOptions (serviceOptions
             (updateOptions (Some (emptyOptions\<lparr>sortingOptions := Undefined\<rparr>))
                (snd (buildQuery specToString ?S)))) = Undefined"
    by (simp add: updateOptions_def spread_def spreadKey_def emptyOptions_def)
  have l: "fst (buildQuery specToString
             (updateOptions (Some (emptyOptions\<lparr>sortingOptions := Undefined\<rparr>))
                (snd (buildQuery specToString ?S)))) = Inr 
       ''query { users(first:20, offset:40, orderBy:[{sort:id, direction:ASC}]) { totalCount, pageInfo { hasNextPage }, nodes { id, name } } }''"
    by (simp add: pagedUsersService_def service_eval spec_eval fixer_eval)
  from h o u l show ?thesis by (intro conjI)
qed

end
